theory Spec2Isabelle
  imports Main "HOL-Library.Word" "HOL-Library.Multiset"
begin

section \<open>Tokens (include/chasm/lexer.hpp)\<close>

text \<open>The enumeration \<open>token_type\<close>, in the order of the header. The last enumerator,
  \<open>equal\<close> in the source, is written \<open>equal_sign\<close> here.\<close>

datatype token_type =
    eof
  | numerical
  | byte_ascii
  | keyword_define
  | keyword_config
  | keyword_default
  | keyword_sprite
  | keyword_raw
  | keyword_proc_start
  | keyword_proc_end
  | "identifier"
  | instruction
  | register_name
  | bracket_open
  | bracket_close
  | parenthesis_open
  | parenthesis_close
  | colon
  | dot_label
  | at_label
  | dollar_proc
  | hash_sprite
  | comma
  | equal_sign

text \<open>Modelled from the spec: \<open>chasm/source_location.hpp\<close> is not among the sources; the
  Source Cursor "tracks line/column position over raw text".\<close>

record source_location =
  line :: nat
  column :: nat

text \<open>\<open>std::variant<uint16_t, std::string>\<close>: the payload of a token. Equality of two
  payloads is the variant's: same alternative and same value.\<close>

datatype token_data = uint16 "16 word" | str string

record token =
  type :: token_type
  source_location :: source_location
  data :: token_data

section \<open>Errors\<close>

text \<open>Every \<open>throw\<close> of the parser is a constructor. \<open>expected_more_tokens\<close>,
  \<open>sprite_too_much_pixels\<close>, \<open>sprite_digit_too_large\<close>, \<open>unexpected_eof_in_procedure\<close> and
  \<open>procedure_inside_procedure\<close> are the five \<open>chasm_exception\<close> messages of parser.cpp;
  \<open>unexpected_error\<close> and \<open>unmatching_procedure_names\<close> are the two \<open>parser_exception\<close>s;
  \<open>bad_variant_access\<close> is what \<open>std::get<uint16_t>\<close> throws in \<open>token::to_integer\<close> on a
  payload that holds a string.\<close>

datatype error =
    expected_more_tokens
  | unexpected_error token
  | unmatching_procedure_names token token
  | sprite_too_much_pixels token nat nat
  | sprite_digit_too_large
  | unexpected_eof_in_procedure
  | procedure_inside_procedure
  | bad_variant_access

definition to_integer :: "token \<Rightarrow> error + 16 word" where
  "to_integer t = (case data t of uint16 v \<Rightarrow> Inr v | str s \<Rightarrow> Inl bad_variant_access)"

section \<open>The abstract syntax tree\<close>

text \<open>Modelled from the spec: \<open>chasm/arch.hpp\<close> is not among the sources. A sprite is an
  "ordered sequence of up to a fixed maximum number of 8-bit rows": the array \<open>data\<close> (of
  the maximum row count, a parameter \<open>MAX_SPRITE_ROWS\<close> of the functions below) and the
  number \<open>row_count\<close> of rows in use. \<open>arch::sprite sprite {}\<close> value-initialises both.\<close>

record sprite =
  sprite_data :: "8 word list"
  row_count :: nat

definition empty_sprite :: "nat \<Rightarrow> sprite" where
  "empty_sprite MAX_SPRITE_ROWS = \<lparr>sprite_data = replicate MAX_SPRITE_ROWS 0, row_count = 0\<rparr>"

text \<open>Modelled from the spec: \<open>arch::imm_matches_format\<close> and \<open>arch::fmt_imm8\<close> are not
  among the sources. A sprite row "must satisfy the 8-bit immediate-width format", and
  by the spec's width enforcement a value matches a format when it is "at or below" the
  format's maximum, which for eight bits is \<open>0xFF\<close>.\<close>

definition fmt_imm8 :: "16 word" where
  "fmt_imm8 = 0xFF"

definition imm_matches_format :: "16 word \<Rightarrow> 16 word \<Rightarrow> bool" where
  "imm_matches_format v fmt = (v \<le> fmt)"

text \<open>Modelled from the spec: \<open>chasm/ast.hpp\<close> is not among the sources. The six operand
  variants, named after the factory functions \<open>parse_operand\<close> calls, each with the token
  it was built from.\<close>

datatype instruction_operand =
    make_reg token
  | make_immediate token
  | make_label token
  | make_proc token
  | make_sprite token
  | make_indirect token

text \<open>Modelled from the spec: the seven statement variants, with the constructor arguments
  parser.cpp passes to \<open>std::make_unique\<close>. An \<open>ast::statement\<close> is a
  \<open>std::unique_ptr\<close>, so a parsing function returns a \<open>statement option\<close>: \<open>None\<close> is
  the null pointer of \<open>return {}\<close>.\<close>

datatype statement =
    define_statement token token
  | config_statement token token
  | sprite_statement token sprite
  | raw_statement token
  | label_statement token "statement list"
  | procedure_statement token token "statement list"
  | instruction_statement token "instruction_operand list"

datatype abstract_tree = abstract_tree (statements: "statement list")

section \<open>The parser (src/parser.cpp)\<close>

text \<open>The parser's state is the vector \<open>tokens\<close> and the iterator \<open>token_it\<close>; the code
  only dereferences the iterator, increments it and compares it with the end, so the
  state is modelled by the tokens from \<open>token_it\<close> to the end. A parsing function takes
  this list and returns an error, or its result with the list after it. Where the source
  tests \<open>no_more_tokens()\<close> and then reads \<open>token_it->type\<close>, the model distinguishes
  the empty list from a list with a first token.\<close>

type_synonym 'a parse = "token list \<Rightarrow> error + ('a \<times> token list)"

definition no_more_tokens :: "token list \<Rightarrow> bool" where
  "no_more_tokens ts = (ts = [])"

definition advance :: "token parse" where
  "advance ts = (case ts of [] \<Rightarrow> Inl expected_more_tokens | t # rest \<Rightarrow> Inr (t, rest))"

text \<open>Modelled from the spec: \<open>parser::expect\<close>, \<open>parser::advance_if\<close> and
  \<open>parser::next_any_of\<close> are declared in \<open>chasm/parser.hpp\<close>, which is not among the
  sources. "Any missing expected token fails with a parser exception carrying the
  unexpected token and its position (UnexpectedToken)": \<open>expect\<close> advances and fails
  unless the token's type is one of those given. \<open>advance_if\<close> consumes the next token when
  it has the given type and tells whether it did; \<open>next_any_of\<close> tells whether the next
  token has one of the given types; at the end of the tokens both answer no.\<close>

definition expect :: "token_type list \<Rightarrow> token parse" where
  "expect types ts =
     (case advance ts of
        Inl e \<Rightarrow> Inl e
      | Inr (t, rest) \<Rightarrow> if type t \<in> set types then Inr (t, rest) else Inl (unexpected_error t))"

definition advance_if :: "token_type \<Rightarrow> token list \<Rightarrow> bool \<times> token list" where
  "advance_if ty ts =
     (case ts of [] \<Rightarrow> (False, []) | t # rest \<Rightarrow> if type t = ty then (True, rest) else (False, ts))"

definition next_any_of :: "token_type list \<Rightarrow> token list \<Rightarrow> bool" where
  "next_any_of types ts = (case ts of [] \<Rightarrow> False | t # rest \<Rightarrow> type t \<in> set types)"

text \<open>Sequencing: an exception thrown by the first call leaves the function at once;
  otherwise the next call runs on the tokens that are left.\<close>

definition and_then ::
  "error + ('a \<times> token list) \<Rightarrow> ('a \<Rightarrow> token list \<Rightarrow> error + 'b) \<Rightarrow> error + 'b" where
  "and_then r f = (case r of Inl e \<Rightarrow> Inl e | Inr (x, ts) \<Rightarrow> f x ts)"

lemma and_then_cong [fundef_cong]:
  "r = r' \<Longrightarrow> (\<And>x ts. r' = Inr (x, ts) \<Longrightarrow> f x ts = f' x ts) \<Longrightarrow> and_then r f = and_then r' f'"
  by (auto simp: and_then_def split: sum.splits)

lemma and_then_simps [simp]:
  "and_then (Inl e) f = Inl e"
  "and_then (Inr (x, ts)) f = f x ts"
  by (simp_all add: and_then_def)

subsection \<open>Statements without nested statements\<close>

definition parse_raw :: "statement option parse" where
  "parse_raw ts0 =
     and_then (expect [keyword_raw] ts0) (\<lambda>_ ts1.
     and_then (expect [parenthesis_open] ts1) (\<lambda>_ ts2.
     and_then (expect [numerical, identifier] ts2) (\<lambda>tok ts3.
     and_then (expect [parenthesis_close] ts3) (\<lambda>_ ts4.
     Inr (Some (raw_statement tok), ts4)))))"

definition parse_define :: "statement option parse" where
  "parse_define ts0 =
     and_then (expect [keyword_define] ts0) (\<lambda>_ ts1.
     and_then (expect [identifier] ts1) (\<lambda>ident ts2.
     and_then (expect [numerical, keyword_default] ts2) (\<lambda>val ts3.
     Inr (Some (define_statement ident val), ts3))))"

definition parse_config :: "statement option parse" where
  "parse_config ts0 =
     and_then (expect [keyword_config] ts0) (\<lambda>_ ts1.
     and_then (expect [identifier] ts1) (\<lambda>ident ts2.
     and_then (expect [equal_sign] ts2) (\<lambda>_ ts3.
     and_then (expect [numerical, keyword_default] ts3) (\<lambda>val ts4.
     Inr (Some (config_statement ident val), ts4)))))"

lemma advance_shorter: "advance ts = Inr (t, rest) \<Longrightarrow> length rest < length ts"
  by (cases ts) (simp_all add: advance_def)

lemma expect_shorter: "expect types ts = Inr (t, rest) \<Longrightarrow> length rest < length ts"
  by (auto simp: expect_def split: sum.splits if_splits dest: advance_shorter)

lemma advance_if_le: "advance_if ty ts = (b, rest) \<Longrightarrow> length rest \<le> length ts"
  by (cases ts) (auto simp: advance_if_def split: if_splits)

text \<open>The \<open>do ... while (advance_if(comma))\<close> loop of \<open>parse_sprite\<close>: one round reads a
  row, checks the row count, then the value, stores the row, and goes round again when a
  comma follows.\<close>

function sprite_rows :: "nat \<Rightarrow> token \<Rightarrow> sprite \<Rightarrow> sprite parse" where
  "sprite_rows MAX_SPRITE_ROWS ident sp ts0 =
     and_then (expect [numerical] ts0) (\<lambda>tok ts1.
     case to_integer tok of Inl e \<Rightarrow> Inl e | Inr v \<Rightarrow>
       if row_count sp \<ge> MAX_SPRITE_ROWS
         then Inl (sprite_too_much_pixels ident (row_count sp) MAX_SPRITE_ROWS)
       else if \<not> imm_matches_format v fmt_imm8
         then Inl sprite_digit_too_large
       else
         let sp' = sp\<lparr>sprite_data := (sprite_data sp)[row_count sp := ucast v],
                      row_count := row_count sp + 1\<rparr>
         in if fst (advance_if comma ts1)
              then sprite_rows MAX_SPRITE_ROWS ident sp' (snd (advance_if comma ts1))
              else Inr (sp', snd (advance_if comma ts1)))"
  by pat_completeness auto
termination
proof (relation "measure (\<lambda>(m, i, s, ts). length ts)", goal_cases)
  case 1
  show ?case by simp
next
  case (2 MAX_SPRITE_ROWS ident sp ts0 tok ts1 v sp')
  have "length ts1 < length ts0"
    using 2 expect_shorter by blast
  moreover have "length (snd (advance_if comma ts1)) \<le> length ts1"
    using advance_if_le [of comma ts1] by (cases "advance_if comma ts1") simp
  ultimately show ?case by simp
qed

declare sprite_rows.simps [simp del]

definition parse_sprite :: "nat \<Rightarrow> statement option parse" where
  "parse_sprite MAX_SPRITE_ROWS ts0 =
     and_then (expect [keyword_sprite] ts0) (\<lambda>_ ts1.
     and_then (expect [identifier] ts1) (\<lambda>ident ts2.
     and_then (expect [bracket_open] ts2) (\<lambda>_ ts3.
     and_then (sprite_rows MAX_SPRITE_ROWS ident (empty_sprite MAX_SPRITE_ROWS) ts3) (\<lambda>sp ts4.
     and_then (expect [bracket_close] ts4) (\<lambda>_ ts5.
     Inr (Some (sprite_statement ident sp), ts5))))))"


subsection \<open>Instructions and operands\<close>

definition parse_operand :: "instruction_operand parse" where
  "parse_operand ts0 =
     and_then (expect [register_name, identifier, numerical, at_label, dollar_proc,
                       hash_sprite, bracket_open] ts0) (\<lambda>tok ts1.
     case type tok of
       register_name \<Rightarrow> Inr (make_reg tok, ts1)
     | at_label \<Rightarrow>
         and_then (expect [identifier] ts1) (\<lambda>label ts2. Inr (make_label label, ts2))
     | dollar_proc \<Rightarrow>
         and_then (expect [identifier] ts1) (\<lambda>proc ts2. Inr (make_proc proc, ts2))
     | hash_sprite \<Rightarrow>
         and_then (expect [identifier] ts1) (\<lambda>sprite ts2. Inr (make_sprite sprite, ts2))
     | bracket_open \<Rightarrow>
         and_then (expect [identifier, numerical] ts1) (\<lambda>inner_token ts2.
         and_then (expect [bracket_close] ts2) (\<lambda>_ ts3.
         Inr (make_indirect inner_token, ts3)))
     | _ \<Rightarrow> Inr (make_immediate tok, ts1))"

text \<open>What one token list has more than the list left after a parsing function: at least
  one token, and no end-of-file token.\<close>

definition takes :: "token list \<Rightarrow> token list \<Rightarrow> bool" where
  "takes ts rest = (\<exists>pre. pre \<noteq> [] \<and> ts = pre @ rest \<and> (\<forall>t \<in> set pre. type t \<noteq> eof))"

lemma takes_shorter: "takes ts rest \<Longrightarrow> length rest < length ts"
  by (auto simp: takes_def)

lemma takes_trans: "takes ts ts' \<Longrightarrow> takes ts' ts'' \<Longrightarrow> takes ts ts''"
  unfolding takes_def
proof (elim exE conjE)
  fix p q
  assume "p \<noteq> []" "ts = p @ ts'" "\<forall>t \<in> set p. type t \<noteq> eof"
    and "q \<noteq> []" "ts' = q @ ts''" "\<forall>t \<in> set q. type t \<noteq> eof"
  then have "p @ q \<noteq> [] \<and> ts = (p @ q) @ ts'' \<and> (\<forall>t \<in> set (p @ q). type t \<noteq> eof)"
    by auto
  then show "\<exists>pre. pre \<noteq> [] \<and> ts = pre @ ts'' \<and> (\<forall>t \<in> set pre. type t \<noteq> eof)"
    by blast
qed

lemma expect_takes:
  "expect types ts = Inr (t, rest) \<Longrightarrow> eof \<notin> set types \<Longrightarrow> takes ts rest"
proof -
  assume r: "expect types ts = Inr (t, rest)" and n: "eof \<notin> set types"
  from r have "ts = [t] @ rest \<and> type t \<in> set types"
    by (cases ts) (auto simp: expect_def advance_def split: if_splits)
  with n have "[t] \<noteq> [] \<and> ts = [t] @ rest \<and> (\<forall>u \<in> set [t]. type u \<noteq> eof)"
    by auto
  then show ?thesis
    unfolding takes_def by blast
qed

lemma and_then_Inr:
  "and_then r f = Inr y \<longleftrightarrow> (\<exists>x ts. r = Inr (x, ts) \<and> f x ts = Inr y)"
  by (auto simp: and_then_def split: sum.splits)

lemma parse_raw_takes: "parse_raw ts = Inr (s, rest) \<Longrightarrow> takes ts rest"
  unfolding parse_raw_def and_then_Inr
  by (elim exE conjE) (auto dest!: expect_takes intro: takes_trans)

lemma parse_define_takes: "parse_define ts = Inr (s, rest) \<Longrightarrow> takes ts rest"
  unfolding parse_define_def and_then_Inr
  by (elim exE conjE) (auto dest!: expect_takes intro: takes_trans)

lemma parse_config_takes: "parse_config ts = Inr (s, rest) \<Longrightarrow> takes ts rest"
  unfolding parse_config_def and_then_Inr
  by (elim exE conjE) (auto dest!: expect_takes intro: takes_trans)

lemma parse_operand_takes: "parse_operand ts = Inr (s, rest) \<Longrightarrow> takes ts rest"
  unfolding parse_operand_def and_then_Inr
  by (elim exE conjE)
     (auto simp: and_then_Inr split: token_type.splits dest!: expect_takes intro: takes_trans)


lemma advance_if_cases:
  "(fst (advance_if ty ts) \<and> takes ts (snd (advance_if ty ts)) \<and> ty \<noteq> eof)
   \<or> (fst (advance_if ty ts) \<and> ty = eof)
   \<or> (\<not> fst (advance_if ty ts) \<and> snd (advance_if ty ts) = ts)"
proof (cases ts)
  case Nil
  then show ?thesis by (simp add: advance_if_def)
next
  case (Cons t rest)
  show ?thesis
  proof (cases "type t = ty")
    case True
    have "ty \<noteq> eof \<Longrightarrow> [t] \<noteq> [] \<and> ts = [t] @ rest \<and> (\<forall>u \<in> set [t]. type u \<noteq> eof)"
      using Cons True by simp
    then have "ty \<noteq> eof \<Longrightarrow> takes ts rest"
      unfolding takes_def by blast
    then show ?thesis
      using Cons True by (auto simp: advance_if_def)
  next
    case False
    then show ?thesis
      using Cons by (simp add: advance_if_def)
  qed
qed

lemma advance_if_comma:
  "fst (advance_if comma ts) \<Longrightarrow> takes ts (snd (advance_if comma ts))"
  "\<not> fst (advance_if comma ts) \<Longrightarrow> snd (advance_if comma ts) = ts"
  using advance_if_cases [of comma ts] by auto

text \<open>The \<open>while (next_any_of(...))\<close> loop of \<open>parse_operands\<close>, with the vector
  \<open>operands\<close> built so far.\<close>

function parse_operands_loop ::
  "instruction_operand list \<Rightarrow> instruction_operand list parse" where
  "parse_operands_loop operands ts0 =
     (if next_any_of [identifier, register_name, at_label, hash_sprite, dollar_proc,
                      numerical, bracket_open] ts0
      then and_then (parse_operand ts0) (\<lambda>operand ts1.
           if \<not> fst (advance_if comma ts1)
             then Inr (operands @ [operand], snd (advance_if comma ts1))
             else parse_operands_loop (operands @ [operand]) (snd (advance_if comma ts1)))
      else Inr (operands, ts0))"
  by pat_completeness auto
termination
proof (relation "measure (\<lambda>(ops, ts). length ts)", goal_cases)
  case 1
  show ?case by simp
next
  case (2 operands ts0 operand ts1)
  then have "takes ts0 ts1" "takes ts1 (snd (advance_if comma ts1))"
    by (auto dest: parse_operand_takes advance_if_comma(1))
  then show ?case
    by (auto dest!: takes_shorter)
qed

declare parse_operands_loop.simps [simp del]

definition parse_operands :: "instruction_operand list parse" where
  "parse_operands ts = parse_operands_loop [] ts"

definition parse_instruction :: "statement option parse" where
  "parse_instruction ts0 =
     and_then (expect [instruction] ts0) (\<lambda>mnemonic ts1.
     and_then (parse_operands ts1) (\<lambda>operands ts2.
     Inr (Some (instruction_statement mnemonic operands), ts2)))"

text \<open>A loop that may stop without reading a token leaves a suffix.\<close>

definition takes0 :: "token list \<Rightarrow> token list \<Rightarrow> bool" where
  "takes0 ts rest = (rest = ts \<or> takes ts rest)"

lemma takes0_refl: "takes0 ts ts"
  by (simp add: takes0_def)

lemma takes_takes0: "takes ts ts' \<Longrightarrow> takes0 ts' ts'' \<Longrightarrow> takes ts ts''"
  by (auto simp: takes0_def intro: takes_trans)

lemma takes0_trans: "takes0 ts ts' \<Longrightarrow> takes0 ts' ts'' \<Longrightarrow> takes0 ts ts''"
  by (auto simp: takes0_def intro: takes_trans)

lemma parse_operands_loop_takes0:
  "parse_operands_loop operands ts = Inr (r, rest) \<Longrightarrow> takes0 ts rest"
proof (induction operands ts rule: parse_operands_loop.induct)
  case (1 operands ts0)
  show ?case
  proof (cases "next_any_of [identifier, register_name, at_label, hash_sprite, dollar_proc,
                      numerical, bracket_open] ts0")
    case False
    with "1.prems" show ?thesis
      by (simp add: parse_operands_loop.simps [of operands ts0] takes0_refl)
  next
    case True
    with "1.prems" obtain operand ts1 where
      op: "parse_operand ts0 = Inr (operand, ts1)" and
      r: "(if \<not> fst (advance_if comma ts1)
             then Inr (operands @ [operand], snd (advance_if comma ts1))
             else parse_operands_loop (operands @ [operand]) (snd (advance_if comma ts1)))
          = Inr (r, rest)"
      by (auto simp: parse_operands_loop.simps [of operands ts0] and_then_Inr)
    have t01: "takes ts0 ts1"
      using op by (rule parse_operand_takes)
    show ?thesis
    proof (cases "fst (advance_if comma ts1)")
      case False
      with r have "rest = ts1"
        by (simp add: advance_if_comma(2))
      with t01 show ?thesis
        by (simp add: takes0_def)
    next
      case c: True
      with r have "parse_operands_loop (operands @ [operand]) (snd (advance_if comma ts1))
                   = Inr (r, rest)"
        by simp
      with "1.IH" [OF True op] c have "takes0 (snd (advance_if comma ts1)) rest"
        by simp
      moreover have "takes ts1 (snd (advance_if comma ts1))"
        using c by (rule advance_if_comma(1))
      ultimately have "takes ts0 rest"
        using t01 by (blast intro: takes_trans takes_takes0)
      then show ?thesis
        by (simp add: takes0_def)
    qed
  qed
qed

lemma parse_instruction_takes: "parse_instruction ts = Inr (s, rest) \<Longrightarrow> takes ts rest"
  unfolding parse_instruction_def parse_operands_def and_then_Inr
  by (elim exE conjE)
     (auto dest!: expect_takes parse_operands_loop_takes0 intro: takes_takes0)


subsection \<open>Labels\<close>

text \<open>The lambda \<open>parse_inner_statement\<close> of \<open>parse_label\<close>.\<close>

definition parse_label_inner_statement :: "statement option parse" where
  "parse_label_inner_statement ts =
     (case ts of
        [] \<Rightarrow> Inr (None, ts)
      | t # _ \<Rightarrow>
          (case type t of
             keyword_proc_end \<Rightarrow> Inr (None, ts)
           | dot_label \<Rightarrow> Inr (None, ts)
           | keyword_define \<Rightarrow> parse_define ts
           | keyword_config \<Rightarrow> parse_config ts
           | keyword_raw \<Rightarrow> parse_raw ts
           | instruction \<Rightarrow> parse_instruction ts
           | _ \<Rightarrow> Inl (unexpected_error t)))"

lemma parse_label_inner_statement_takes:
  "parse_label_inner_statement ts = Inr (Some s, rest) \<Longrightarrow> takes ts rest"
  unfolding parse_label_inner_statement_def
  by (auto split: list.splits token_type.splits
           dest: parse_define_takes parse_config_takes parse_raw_takes parse_instruction_takes)

text \<open>The loop \<open>while (auto block = parse_inner_statement()) inner_statements.push_back(...)\<close>.\<close>

function parse_label_loop :: "statement list \<Rightarrow> statement list parse" where
  "parse_label_loop inner_statements ts0 =
     and_then (parse_label_inner_statement ts0) (\<lambda>block ts1.
     case block of
       None \<Rightarrow> Inr (inner_statements, ts1)
     | Some b \<Rightarrow> parse_label_loop (inner_statements @ [b]) ts1)"
  by pat_completeness auto
termination
  by (relation "measure (\<lambda>(inner, ts). length ts)")
     (auto dest!: parse_label_inner_statement_takes takes_shorter)

declare parse_label_loop.simps [simp del]

definition parse_label :: "statement option parse" where
  "parse_label ts0 =
     and_then (expect [dot_label] ts0) (\<lambda>_ ts1.
     and_then (expect [identifier] ts1) (\<lambda>ident ts2.
     and_then (expect [colon] ts2) (\<lambda>_ ts3.
     and_then (parse_label_loop [] ts3) (\<lambda>inner_statements ts4.
     Inr (Some (label_statement ident inner_statements), ts4)))))"

lemma parse_label_loop_takes0:
  "parse_label_loop inner ts = Inr (r, rest) \<Longrightarrow> takes0 ts rest"
proof (induction inner ts rule: parse_label_loop.induct)
  case (1 inner ts0)
  from "1.prems" obtain block ts1 where
    b: "parse_label_inner_statement ts0 = Inr (block, ts1)" and
    r: "(case block of None \<Rightarrow> Inr (inner, ts1)
         | Some b \<Rightarrow> parse_label_loop (inner @ [b]) ts1) = Inr (r, rest)"
    by (auto simp: parse_label_loop.simps [of inner ts0] and_then_Inr)
  show ?case
  proof (cases block)
    case None
    with b have "ts1 = ts0"
      by (auto simp: parse_label_inner_statement_def
               split: list.splits token_type.splits
               simp: parse_define_def parse_config_def parse_raw_def parse_instruction_def
                     and_then_Inr)
    with None r show ?thesis
      by (simp add: takes0_refl)
  next
    case (Some s)
    with b have "takes ts0 ts1"
      by (auto dest: parse_label_inner_statement_takes)
    moreover have "takes0 ts1 rest"
      using "1.IH" [OF b Some] r Some by simp
    ultimately show ?thesis
      by (auto simp: takes0_def intro: takes_takes0)
  qed
qed

lemma parse_label_takes: "parse_label ts = Inr (s, rest) \<Longrightarrow> takes ts rest"
  unfolding parse_label_def and_then_Inr
  by (elim exE conjE)
     (auto dest!: expect_takes parse_label_loop_takes0 intro: takes_takes0 takes_trans)

subsection \<open>Procedures\<close>

text \<open>The lambda \<open>parse_inner_statement\<close> of \<open>parse_procedure\<close>.\<close>

definition parse_procedure_inner_statement :: "statement option parse" where
  "parse_procedure_inner_statement ts =
     (case ts of
        [] \<Rightarrow> Inl unexpected_eof_in_procedure
      | t # _ \<Rightarrow>
          (case type t of
             keyword_proc_end \<Rightarrow> Inr (None, ts)
           | keyword_define \<Rightarrow> parse_define ts
           | keyword_config \<Rightarrow> parse_config ts
           | keyword_raw \<Rightarrow> parse_raw ts
           | instruction \<Rightarrow> parse_instruction ts
           | dot_label \<Rightarrow> parse_label ts
           | keyword_proc_start \<Rightarrow> Inl procedure_inside_procedure
           | _ \<Rightarrow> Inl (unexpected_error t)))"

lemma parse_procedure_inner_statement_takes:
  "parse_procedure_inner_statement ts = Inr (Some s, rest) \<Longrightarrow> takes ts rest"
  unfolding parse_procedure_inner_statement_def
  by (auto split: list.splits token_type.splits
           dest: parse_define_takes parse_config_takes parse_raw_takes parse_instruction_takes
                 parse_label_takes)

function parse_procedure_loop :: "statement list \<Rightarrow> statement list parse" where
  "parse_procedure_loop inner_statements ts0 =
     and_then (parse_procedure_inner_statement ts0) (\<lambda>block ts1.
     case block of
       None \<Rightarrow> Inr (inner_statements, ts1)
     | Some b \<Rightarrow> parse_procedure_loop (inner_statements @ [b]) ts1)"
  by pat_completeness auto
termination
  by (relation "measure (\<lambda>(inner, ts). length ts)")
     (auto dest!: parse_procedure_inner_statement_takes takes_shorter)

declare parse_procedure_loop.simps [simp del]

definition parse_procedure :: "statement option parse" where
  "parse_procedure ts0 =
     and_then (expect [keyword_proc_start] ts0) (\<lambda>_ ts1.
     and_then (expect [identifier] ts1) (\<lambda>proc_name_beg ts2.
     and_then (parse_procedure_loop [] ts2) (\<lambda>inner_statements ts3.
     and_then (expect [keyword_proc_end] ts3) (\<lambda>_ ts4.
     and_then (expect [identifier] ts4) (\<lambda>proc_name_end ts5.
     if data proc_name_end \<noteq> data proc_name_beg
       then Inl (unmatching_procedure_names proc_name_beg proc_name_end)
       else Inr (Some (procedure_statement proc_name_beg proc_name_end inner_statements),
                 ts5))))))"


lemma parse_procedure_loop_takes0:
  "parse_procedure_loop inner ts = Inr (r, rest) \<Longrightarrow> takes0 ts rest"
proof (induction inner ts rule: parse_procedure_loop.induct)
  case (1 inner ts0)
  from "1.prems" obtain block ts1 where
    b: "parse_procedure_inner_statement ts0 = Inr (block, ts1)" and
    r: "(case block of None \<Rightarrow> Inr (inner, ts1)
         | Some b \<Rightarrow> parse_procedure_loop (inner @ [b]) ts1) = Inr (r, rest)"
    by (auto simp: parse_procedure_loop.simps [of inner ts0] and_then_Inr)
  show ?case
  proof (cases block)
    case None
    with b have "ts1 = ts0"
      by (auto simp: parse_procedure_inner_statement_def
               split: list.splits token_type.splits
               simp: parse_define_def parse_config_def parse_raw_def parse_instruction_def
                     parse_label_def and_then_Inr)
    with None r show ?thesis
      by (simp add: takes0_refl)
  next
    case (Some s)
    with b have "takes ts0 ts1"
      by (auto dest: parse_procedure_inner_statement_takes)
    moreover have "takes0 ts1 rest"
      using "1.IH" [OF b Some] r Some by simp
    ultimately show ?thesis
      by (auto simp: takes0_def intro: takes_takes0)
  qed
qed

lemma parse_procedure_takes: "parse_procedure ts = Inr (s, rest) \<Longrightarrow> takes ts rest"
  unfolding parse_procedure_def and_then_Inr
  apply (elim exE conjE)
  apply (auto split: if_splits dest!: expect_takes parse_procedure_loop_takes0)
  apply (meson takes_takes0 takes_trans)
  done

lemma sprite_rows_takes:
  "sprite_rows m ident sp ts = Inr (r, rest) \<Longrightarrow> takes ts rest"
proof (induction m ident sp ts rule: sprite_rows.induct)
  case (1 m ident sp ts0)
  from "1.prems" obtain tok ts1 where
    e: "expect [numerical] ts0 = Inr (tok, ts1)" and
    r1: "(case to_integer tok of Inl e \<Rightarrow> Inl e | Inr v \<Rightarrow>
           if row_count sp \<ge> m
             then Inl (sprite_too_much_pixels ident (row_count sp) m)
           else if \<not> imm_matches_format v fmt_imm8
             then Inl sprite_digit_too_large
           else
             let sp' = sp\<lparr>sprite_data := (sprite_data sp)[row_count sp := ucast v],
                          row_count := row_count sp + 1\<rparr>
             in if fst (advance_if comma ts1)
                  then sprite_rows m ident sp' (snd (advance_if comma ts1))
                  else Inr (sp', snd (advance_if comma ts1))) = Inr (r, rest)"
    unfolding sprite_rows.simps [of m ident sp ts0] and_then_Inr by blast
  from r1 obtain v where v: "to_integer tok = Inr v"
    by (cases "to_integer tok") auto
  from r1 v have c1: "\<not> m \<le> row_count sp"
    by (auto split: if_splits)
  from r1 v c1 have c2: "\<not> \<not> imm_matches_format v fmt_imm8"
    by (auto split: if_splits)
  define sp' where "sp' = sp\<lparr>sprite_data := (sprite_data sp)[row_count sp := ucast v],
                               row_count := row_count sp + 1\<rparr>"
  have t01: "takes ts0 ts1"
    using e by (auto dest: expect_takes)
  show ?case
  proof (cases "fst (advance_if comma ts1)")
    case False
    with "1.prems" e v c1 c2 have "rest = ts1"
      by (simp add: sprite_rows.simps [of m ident sp ts0] Let_def advance_if_comma(2))
    with t01 show ?thesis by simp
  next
    case True
    with "1.prems" e v c1 c2
    have "sprite_rows m ident sp' (snd (advance_if comma ts1)) = Inr (r, rest)"
      by (simp add: sprite_rows.simps [of m ident sp ts0] Let_def sp'_def)
    with "1.IH" [OF e v c1 c2 sp'_def [symmetric, THEN sym] True]
    have "takes (snd (advance_if comma ts1)) rest"
      by simp
    moreover have "takes ts1 (snd (advance_if comma ts1))"
      using True by (rule advance_if_comma(1))
    ultimately show ?thesis
      using t01 by (blast intro: takes_trans)
  qed
qed

lemma parse_sprite_takes: "parse_sprite m ts = Inr (s, rest) \<Longrightarrow> takes ts rest"
  unfolding parse_sprite_def and_then_Inr
  apply (elim exE conjE)
  apply (auto dest!: expect_takes sprite_rows_takes)
  apply (meson takes_trans)
  done

subsection \<open>Top-level statements and the tree\<close>

definition parse_primary_statement :: "nat \<Rightarrow> statement option parse" where
  "parse_primary_statement MAX_SPRITE_ROWS ts =
     (case ts of
        [] \<Rightarrow> Inr (None, ts)
      | t # _ \<Rightarrow>
          (case type t of
             keyword_define \<Rightarrow> parse_define ts
           | keyword_config \<Rightarrow> parse_config ts
           | keyword_sprite \<Rightarrow> parse_sprite MAX_SPRITE_ROWS ts
           | keyword_raw \<Rightarrow> parse_raw ts
           | dot_label \<Rightarrow> parse_label ts
           | keyword_proc_start \<Rightarrow> parse_procedure ts
           | instruction \<Rightarrow> parse_instruction ts
           | _ \<Rightarrow> Inl (unexpected_error t)))"

lemma parse_primary_statement_takes:
  "parse_primary_statement m ts = Inr (Some s, rest) \<Longrightarrow> takes ts rest"
  unfolding parse_primary_statement_def
  by (auto split: list.splits token_type.splits
           dest: parse_define_takes parse_config_takes parse_raw_takes parse_instruction_takes
                 parse_label_takes parse_procedure_takes parse_sprite_takes)

text \<open>The loop \<open>while (auto branch = parse_primary_statement()) branches.push_back(...)\<close>
  of \<open>make_tree\<close>.\<close>

function make_tree_loop :: "nat \<Rightarrow> statement list \<Rightarrow> statement list parse" where
  "make_tree_loop MAX_SPRITE_ROWS branches ts0 =
     and_then (parse_primary_statement MAX_SPRITE_ROWS ts0) (\<lambda>branch ts1.
     case branch of
       None \<Rightarrow> Inr (branches, ts1)
     | Some b \<Rightarrow> make_tree_loop MAX_SPRITE_ROWS (branches @ [b]) ts1)"
  by pat_completeness auto
termination
  by (relation "measure (\<lambda>(m, branches, ts). length ts)")
     (auto dest!: parse_primary_statement_takes takes_shorter)

declare make_tree_loop.simps [simp del]

definition make_tree :: "nat \<Rightarrow> token list \<Rightarrow> error + abstract_tree" where
  "make_tree MAX_SPRITE_ROWS tokens =
     and_then (make_tree_loop MAX_SPRITE_ROWS [] tokens) (\<lambda>branches _.
     Inr (abstract_tree branches))"


section \<open>Generation (src/ast.cpp)\<close>

text \<open>\<open>std::ranges::stable_sort(statements, comp)\<close> is the standard library's: it orders the
  vector by the comparator \<open>comp\<close> (here \<open>before\<close>) and keeps equivalent elements in their order. It is
  modelled by insertion from the right: an element is moved behind exactly those elements
  that the comparator puts before it. (Theorem \<open>stable_sort_unique\<close> below shows that this
  choice of algorithm is no restriction.)\<close>

fun insert_stable :: "('a \<Rightarrow> 'a \<Rightarrow> bool) \<Rightarrow> 'a \<Rightarrow> 'a list \<Rightarrow> 'a list" where
  "insert_stable before x [] = [x]"
| "insert_stable before x (y # ys) =
     (if before y x then y # insert_stable before x ys else x # y # ys)"

fun stable_sort :: "('a \<Rightarrow> 'a \<Rightarrow> bool) \<Rightarrow> 'a list \<Rightarrow> 'a list" where
  "stable_sort before [] = []"
| "stable_sort before (x # xs) = insert_stable before x (stable_sort before xs)"

text \<open>\<open>abstract_tree::generate\<close>. The symbol sanitizer, the generator and the statements'
  \<open>priority()\<close> are not among the sources: they are the parameters \<open>sanitize\<close> (which
  throws or returns; it is \<open>const\<close> and leaves the tree as it is), \<open>generator_generate\<close>
  and \<open>priority\<close>. The lambda of the source is the comparator
  \<open>\<lambda>a b. priority a > priority b\<close>.\<close>

definition generate ::
  "(abstract_tree \<Rightarrow> error + unit) \<Rightarrow> (abstract_tree \<Rightarrow> error + 16 word list) \<Rightarrow>
   (statement \<Rightarrow> 'p::linorder) \<Rightarrow> abstract_tree \<Rightarrow> error + 16 word list" where
  "generate sanitize generator_generate priority tree =
     (case sanitize tree of
        Inl e \<Rightarrow> Inl e
      | Inr _ \<Rightarrow>
          generator_generate
            (abstract_tree (stable_sort (\<lambda>a b. priority a > priority b) (statements tree))))"

section \<open>The entry point (src/main.cpp)\<close>


section \<open>The pipeline and the generator, as far as the spec fixes them\<close>




section \<open>Notions used to state the properties\<close>

text \<open>The variant of a statement.\<close>

datatype statement_kind =
    define_kind | config_kind | sprite_kind | raw_kind | label_kind | procedure_kind
  | instruction_kind

fun kind :: "statement \<Rightarrow> statement_kind" where
  "kind (define_statement _ _) = define_kind"
| "kind (config_statement _ _) = config_kind"
| "kind (sprite_statement _ _) = sprite_kind"
| "kind (raw_statement _) = raw_kind"
| "kind (label_statement _ _) = label_kind"
| "kind (procedure_statement _ _ _) = procedure_kind"
| "kind (instruction_statement _ _) = instruction_kind"

text \<open>A token of the first source line, for the examples: its type, column and payload.\<close>

definition tok :: "token_type \<Rightarrow> nat \<Rightarrow> token_data \<Rightarrow> token" where
  "tok ty col d =
     \<lparr>type = ty, source_location = \<lparr>line = 1, column = col\<rparr>, data = d\<rparr>"

text \<open>The tokens of a row list \<open>n, n, ...\<close>: the first row \<open>r\<close>, then each further row
  with the comma before it.\<close>

definition row_list :: "token \<Rightarrow> (token \<times> token) list \<Rightarrow> token list" where
  "row_list r crs = r # concat (map (\<lambda>(c, r'). [c, r']) crs)"

text \<open>The two assignments that end a round of the loop of \<open>parse_sprite\<close>.\<close>

definition store_row :: "sprite \<Rightarrow> 16 word \<Rightarrow> sprite" where
  "store_row sp v = sp\<lparr>sprite_data := (sprite_data sp)[row_count sp := ucast v],
                        row_count := row_count sp + 1\<rparr>"


text \<open>The loop of \<open>make_tree\<close> reads the statements \<open>stmts\<close> from the tokens \<open>toks\<close>
  when the tokens \<open>rest\<close> follow them: whatever it has read before, it goes on behind
  \<open>toks\<close> with \<open>stmts\<close> appended.\<close>

definition reads :: "nat \<Rightarrow> token list \<Rightarrow> statement list \<Rightarrow> token list \<Rightarrow> bool" where
  "reads m toks stmts rest =
     (\<forall>branches. make_tree_loop m branches (toks @ rest)
                  = make_tree_loop m (branches @ stmts) rest)"

section \<open>Ordering of the statements handed to the generator\<close>

lemma mset_insert_stable: "mset (insert_stable before x ys) = add_mset x (mset ys)"
  by (induction ys) simp_all

lemma mset_stable_sort: "mset (stable_sort before xs) = mset xs"
  by (induction xs) (simp_all add: mset_insert_stable)

lemma set_insert_stable: "set (insert_stable before x ys) = insert x (set ys)"
  by (induction ys) auto

lemma descending_insert_stable:
  fixes f :: "'a \<Rightarrow> 'p::linorder"
  assumes "sorted_wrt (\<lambda>a b. f a \<ge> f b) ys"
  shows "sorted_wrt (\<lambda>a b. f a \<ge> f b) (insert_stable (\<lambda>a b. f a > f b) x ys)"
  using assms
proof (induction ys)
  case Nil
  show ?case by simp
next
  case (Cons y ys)
  show ?case
  proof (cases "f y > f x")
    case True
    with Cons show ?thesis
      by (auto simp: set_insert_stable)
  next
    case False
    then have "f x \<ge> f y" by simp
    with Cons.prems show ?thesis
      by (auto intro: order_trans)
  qed
qed

lemma descending_stable_sort:
  fixes f :: "'a \<Rightarrow> 'p::linorder"
  shows "sorted_wrt (\<lambda>a b. f a \<ge> f b) (stable_sort (\<lambda>a b. f a > f b) xs)"
  by (induction xs) (simp_all add: descending_insert_stable)

lemma filter_insert_stable:
  fixes f :: "'a \<Rightarrow> 'p::linorder"
  shows "filter (\<lambda>s. f s = p) (insert_stable (\<lambda>a b. f a > f b) x ys) =
         (if f x = p then x # filter (\<lambda>s. f s = p) ys else filter (\<lambda>s. f s = p) ys)"
  by (induction ys) auto

lemma filter_stable_sort:
  fixes f :: "'a \<Rightarrow> 'p::linorder"
  shows "filter (\<lambda>s. f s = p) (stable_sort (\<lambda>a b. f a > f b) xs) = filter (\<lambda>s. f s = p) xs"
  by (induction xs) (simp_all add: filter_insert_stable)

text \<open>Claim C1. \<open>generate\<close> runs the sanitizer first, on the tree as parsed: when it throws,
  that error is the outcome and the generator is not run. Otherwise the generator receives
  a sequence that has the same statements as the tree, is in descending order of priority,
  and in which, for every priority, the statements of that priority stand in the order
  they had in the tree (the sort is stable).\<close>

theorem generate_sanitizes_then_sorts_stably:
  fixes priority :: "statement \<Rightarrow> 'p::linorder"
  shows "\<exists>sorted.
           generate sanitize generator_generate priority tree =
             (case sanitize tree of
                Inl e \<Rightarrow> Inl e
              | Inr _ \<Rightarrow> generator_generate (abstract_tree sorted))
         \<and> mset sorted = mset (statements tree)
         \<and> sorted_wrt (\<lambda>a b. priority a \<ge> priority b) sorted
         \<and> (\<forall>p. filter (\<lambda>s. priority s = p) sorted
                = filter (\<lambda>s. priority s = p) (statements tree))"
proof -
  let ?sorted = "stable_sort (\<lambda>a b. priority a > priority b) (statements tree)"
  have "generate sanitize generator_generate priority tree =
          (case sanitize tree of
             Inl e \<Rightarrow> Inl e
           | Inr _ \<Rightarrow> generator_generate (abstract_tree ?sorted))"
    by (simp add: generate_def)
  moreover have "mset ?sorted = mset (statements tree)"
    by (rule mset_stable_sort)
  moreover have "sorted_wrt (\<lambda>a b. priority a \<ge> priority b) ?sorted"
    by (rule descending_stable_sort)
  moreover have "\<forall>p. filter (\<lambda>s. priority s = p) ?sorted
                    = filter (\<lambda>s. priority s = p) (statements tree)"
    by (simp add: filter_stable_sort)
  ultimately show ?thesis
    by blast
qed


section \<open>Labels do not nest in labels\<close>

lemma parse_define_kind: "parse_define ts = Inr (Some s, rest) \<Longrightarrow> kind s = define_kind"
  by (auto simp: parse_define_def and_then_Inr)

lemma parse_config_kind: "parse_config ts = Inr (Some s, rest) \<Longrightarrow> kind s = config_kind"
  by (auto simp: parse_config_def and_then_Inr)

lemma parse_raw_kind: "parse_raw ts = Inr (Some s, rest) \<Longrightarrow> kind s = raw_kind"
  by (auto simp: parse_raw_def and_then_Inr)

lemma parse_instruction_kind:
  "parse_instruction ts = Inr (Some s, rest) \<Longrightarrow> kind s = instruction_kind"
  by (auto simp: parse_instruction_def and_then_Inr)

lemma parse_label_inner_statement_kind:
  "parse_label_inner_statement ts = Inr (Some s, rest) \<Longrightarrow>
   kind s \<in> {define_kind, config_kind, raw_kind, instruction_kind}"
  unfolding parse_label_inner_statement_def
  by (auto split: list.splits token_type.splits
           dest: parse_define_kind parse_config_kind parse_raw_kind parse_instruction_kind)

lemma parse_label_inner_statement_None:
  "parse_label_inner_statement ts = Inr (None, rest) \<Longrightarrow>
   rest = ts \<and> (ts = [] \<or> (\<exists>t ts'. ts = t # ts' \<and> type t \<in> {dot_label, keyword_proc_end}))"
  unfolding parse_label_inner_statement_def
  by (auto split: list.splits token_type.splits
           simp: parse_define_def parse_config_def parse_raw_def parse_instruction_def
                 and_then_Inr)

lemma parse_label_loop_plain:
  "parse_label_loop inner ts = Inr (r, rest) \<Longrightarrow>
   \<forall>s \<in> set inner. kind s \<in> {define_kind, config_kind, raw_kind, instruction_kind} \<Longrightarrow>
   (\<forall>s \<in> set r. kind s \<in> {define_kind, config_kind, raw_kind, instruction_kind})
   \<and> (rest = [] \<or> (\<exists>t ts'. rest = t # ts' \<and> type t \<in> {dot_label, keyword_proc_end}))"
proof (induction inner ts rule: parse_label_loop.induct)
  case (1 inner ts0)
  from "1.prems"(1) obtain block ts1 where
    b: "parse_label_inner_statement ts0 = Inr (block, ts1)" and
    r: "(case block of None \<Rightarrow> Inr (inner, ts1)
         | Some b \<Rightarrow> parse_label_loop (inner @ [b]) ts1) = Inr (r, rest)"
    by (auto simp: parse_label_loop.simps [of inner ts0] and_then_Inr)
  show ?case
  proof (cases block)
    case None
    with r have "r = inner" "rest = ts1" by simp_all
    with b None "1.prems"(2) show ?thesis
      by (auto dest!: parse_label_inner_statement_None)
  next
    case (Some s)
    with b have "kind s \<in> {define_kind, config_kind, raw_kind, instruction_kind}"
      by (auto dest: parse_label_inner_statement_kind)
    with "1.prems"(2)
    have "\<forall>s \<in> set (inner @ [s]). kind s \<in> {define_kind, config_kind, raw_kind, instruction_kind}"
      by auto
    moreover from r Some have "parse_label_loop (inner @ [s]) ts1 = Inr (r, rest)"
      by simp
    ultimately show ?thesis
      using "1.IH" [OF b Some] by blast
  qed
qed

lemma parse_label_plain:
  assumes "parse_label ts = Inr (r, rest)"
  shows "\<exists>ident inner. r = Some (label_statement ident inner)
           \<and> (\<forall>s \<in> set inner. kind s \<in> {define_kind, config_kind, raw_kind, instruction_kind})
           \<and> (rest = [] \<or> (\<exists>t ts'. rest = t # ts' \<and> type t \<in> {dot_label, keyword_proc_end}))"
proof -
  from assms obtain ident ts3 inner where
    l: "parse_label_loop [] ts3 = Inr (inner, rest)" and
    r: "r = Some (label_statement ident inner)"
    by (auto simp: parse_label_def and_then_Inr)
  from parse_label_loop_plain [OF l] r show ?thesis
    by simp
qed

lemma parse_label_loop_stops_at_label:
  "type d = dot_label \<Longrightarrow> parse_label_loop inner (d # ts) = Inr (inner, d # ts)"
  by (simp add: parse_label_loop.simps [of inner "d # ts"] parse_label_inner_statement_def)

lemma parse_label_header:
  "type d = dot_label \<Longrightarrow> type n = identifier \<Longrightarrow> type c = colon \<Longrightarrow>
   parse_label_loop [] ts = Inr (stmts, rest) \<Longrightarrow>
   parse_label (d # n # c # ts) = Inr (Some (label_statement n stmts), rest)"
  by (simp add: parse_label_def expect_def advance_def)

lemma parse_procedure_loop_at_label:
  assumes "type d = dot_label" "type n = identifier" "type c = colon"
    and "parse_label_loop [] ts = Inr (stmts, rest)"
  shows "parse_procedure_loop inner (d # n # c # ts) =
         parse_procedure_loop (inner @ [label_statement n stmts]) rest"
  using assms(1) parse_label_header [OF assms]
  by (simp add: parse_procedure_loop.simps [of inner "d # n # c # ts"]
                parse_procedure_inner_statement_def)

lemma make_tree_loop_at_label:
  assumes "type d = dot_label" "type n = identifier" "type c = colon"
    and "parse_label_loop [] ts = Inr (stmts, rest)"
  shows "make_tree_loop m branches (d # n # c # ts) =
         make_tree_loop m (branches @ [label_statement n stmts]) rest"
  using assms(1) parse_label_header [OF assms]
  by (simp add: make_tree_loop.simps [of m branches "d # n # c # ts"]
                parse_primary_statement_def)

lemma label_after_label:
  assumes "type d1 = dot_label" "type n1 = identifier" "type c1 = colon"
    and "parse_label_loop [] ts1 = Inr (stmts1, d2 # n2 # c2 # ts2)"
    and "type d2 = dot_label" "type n2 = identifier" "type c2 = colon"
    and "parse_label_loop [] ts2 = Inr (stmts2, rest)"
  shows "make_tree_loop m branches (d1 # n1 # c1 # ts1) =
         make_tree_loop m (branches @ [label_statement n1 stmts1, label_statement n2 stmts2]) rest"
    and "parse_procedure_loop body (d1 # n1 # c1 # ts1) =
         parse_procedure_loop (body @ [label_statement n1 stmts1, label_statement n2 stmts2]) rest"
proof -
  have "make_tree_loop m branches (d1 # n1 # c1 # ts1) =
        make_tree_loop m (branches @ [label_statement n1 stmts1]) (d2 # n2 # c2 # ts2)"
    using assms(1-4) by (rule make_tree_loop_at_label)
  also have "\<dots> = make_tree_loop m ((branches @ [label_statement n1 stmts1])
                                        @ [label_statement n2 stmts2]) rest"
    using assms(5-8) by (rule make_tree_loop_at_label)
  finally show "make_tree_loop m branches (d1 # n1 # c1 # ts1) =
         make_tree_loop m (branches @ [label_statement n1 stmts1, label_statement n2 stmts2]) rest"
    by simp
  have "parse_procedure_loop body (d1 # n1 # c1 # ts1) =
        parse_procedure_loop (body @ [label_statement n1 stmts1]) (d2 # n2 # c2 # ts2)"
    using assms(1-4) by (rule parse_procedure_loop_at_label)
  also have "\<dots> = parse_procedure_loop ((body @ [label_statement n1 stmts1])
                                            @ [label_statement n2 stmts2]) rest"
    using assms(5-8) by (rule parse_procedure_loop_at_label)
  finally show "parse_procedure_loop body (d1 # n1 # c1 # ts1) =
         parse_procedure_loop (body @ [label_statement n1 stmts1, label_statement n2 stmts2]) rest"
    by simp
qed

text \<open>Claim C2, as the code has it. A label statement produced by \<open>parse_label\<close> has only
  define, config, raw and instruction statements in its nested list, never a label; the
  tokens after it are exhausted or start with a label or an \<open>endp\<close>. A \<open>.\<close> token met
  in the label's loop ends the label with the statements read so far and is left for the
  enclosing loop. Both enclosing loops, that of \<open>make_tree\<close> and that of a procedure's
  body, append a label \<open>.n1:\<close> with the statements \<open>stmts1\<close> its loop reads to their own
  list and go on with the tokens the label left; when these are a second label \<open>.n2:\<close>,
  it is appended to the same list right behind the first: the two labels are consecutive
  statements of the enclosing sequence.\<close>

theorem label_statements_are_not_nested:
  "(parse_label ts = Inr (r, rest) \<longrightarrow>
      (\<exists>ident inner. r = Some (label_statement ident inner)
         \<and> (\<forall>s \<in> set inner. kind s \<in> {define_kind, config_kind, raw_kind, instruction_kind})
         \<and> (rest = [] \<or> (\<exists>t ts'. rest = t # ts' \<and> type t \<in> {dot_label, keyword_proc_end}))))
   \<and> (type d = dot_label \<longrightarrow> parse_label_loop inner (d # ts') = Inr (inner, d # ts'))
   \<and> (type d1 = dot_label \<and> type n1 = identifier \<and> type c1 = colon
        \<and> parse_label_loop [] ts1 = Inr (stmts1, rest1) \<longrightarrow>
      make_tree_loop m branches (d1 # n1 # c1 # ts1) =
        make_tree_loop m (branches @ [label_statement n1 stmts1]) rest1
      \<and> parse_procedure_loop body (d1 # n1 # c1 # ts1) =
        parse_procedure_loop (body @ [label_statement n1 stmts1]) rest1)
   \<and> (type d1 = dot_label \<and> type n1 = identifier \<and> type c1 = colon
        \<and> parse_label_loop [] ts1 = Inr (stmts1, d2 # n2 # c2 # ts2)
        \<and> type d2 = dot_label \<and> type n2 = identifier \<and> type c2 = colon
        \<and> parse_label_loop [] ts2 = Inr (stmts2, rest2) \<longrightarrow>
      make_tree_loop m branches (d1 # n1 # c1 # ts1) =
        make_tree_loop m (branches @ [label_statement n1 stmts1, label_statement n2 stmts2]) rest2
      \<and> parse_procedure_loop body (d1 # n1 # c1 # ts1) =
        parse_procedure_loop (body @ [label_statement n1 stmts1, label_statement n2 stmts2])
          rest2)"
proof (intro conjI impI)
  assume "parse_label ts = Inr (r, rest)"
  then show "\<exists>ident inner. r = Some (label_statement ident inner)
         \<and> (\<forall>s \<in> set inner. kind s \<in> {define_kind, config_kind, raw_kind, instruction_kind})
         \<and> (rest = [] \<or> (\<exists>t ts'. rest = t # ts' \<and> type t \<in> {dot_label, keyword_proc_end}))"
    by (rule parse_label_plain)
next
  assume "type d = dot_label"
  then show "parse_label_loop inner (d # ts') = Inr (inner, d # ts')"
    by (rule parse_label_loop_stops_at_label)
next
  assume a: "type d1 = dot_label \<and> type n1 = identifier \<and> type c1 = colon
             \<and> parse_label_loop [] ts1 = Inr (stmts1, rest1)"
  then show "make_tree_loop m branches (d1 # n1 # c1 # ts1) =
             make_tree_loop m (branches @ [label_statement n1 stmts1]) rest1"
    by (simp add: make_tree_loop_at_label)
  from a show "parse_procedure_loop body (d1 # n1 # c1 # ts1) =
               parse_procedure_loop (body @ [label_statement n1 stmts1]) rest1"
    by (simp add: parse_procedure_loop_at_label)
next
  assume a: "type d1 = dot_label \<and> type n1 = identifier \<and> type c1 = colon
        \<and> parse_label_loop [] ts1 = Inr (stmts1, d2 # n2 # c2 # ts2)
        \<and> type d2 = dot_label \<and> type n2 = identifier \<and> type c2 = colon
        \<and> parse_label_loop [] ts2 = Inr (stmts2, rest2)"
  then show "make_tree_loop m branches (d1 # n1 # c1 # ts1) =
        make_tree_loop m (branches @ [label_statement n1 stmts1, label_statement n2 stmts2]) rest2"
    using label_after_label(1) [of d1 n1 c1 ts1 stmts1 d2 n2 c2 ts2 stmts2 rest2 m branches]
    by blast
  from a show "parse_procedure_loop body (d1 # n1 # c1 # ts1) =
        parse_procedure_loop (body @ [label_statement n1 stmts1, label_statement n2 stmts2])
          rest2"
    using label_after_label(2) [of d1 n1 c1 ts1 stmts1 d2 n2 c2 ts2 stmts2 rest2 body]
    by blast
qed

theorem label_statements_are_not_nested_witness:
  "parse_label [tok dot_label 1 (str ''.''), tok identifier 2 (str ''a''), tok colon 3 (str '':''),
                tok instruction 5 (str ''ret''),
                tok dot_label 9 (str ''.''), tok identifier 10 (str ''b''), tok colon 11 (str '':'')]
     = Inr (Some (label_statement (tok identifier 2 (str ''a''))
                    [instruction_statement (tok instruction 5 (str ''ret'')) []]),
            [tok dot_label 9 (str ''.''), tok identifier 10 (str ''b''), tok colon 11 (str '':'')])
   \<and> kind (instruction_statement (tok instruction 5 (str ''ret'')) []) = instruction_kind
   \<and> parse_label_loop [] [tok dot_label 9 (str ''.''), tok identifier 10 (str ''b''),
                           tok colon 11 (str '':'')]
       = Inr ([], [tok dot_label 9 (str ''.''), tok identifier 10 (str ''b''),
                   tok colon 11 (str '':'')])
   \<and> make_tree_loop 15 []
        [tok dot_label 1 (str ''.''), tok identifier 2 (str ''a''), tok colon 3 (str '':''),
         tok instruction 5 (str ''ret''),
         tok dot_label 9 (str ''.''), tok identifier 10 (str ''b''), tok colon 11 (str '':'')]
       = Inr ([label_statement (tok identifier 2 (str ''a''))
                 [instruction_statement (tok instruction 5 (str ''ret'')) []],
               label_statement (tok identifier 10 (str ''b'')) []], [])
   \<and> parse_procedure_loop []
        [tok dot_label 1 (str ''.''), tok identifier 2 (str ''a''), tok colon 3 (str '':''),
         tok instruction 5 (str ''ret''),
         tok dot_label 9 (str ''.''), tok identifier 10 (str ''b''), tok colon 11 (str '':''),
         tok keyword_proc_end 13 (str ''endp''), tok identifier 18 (str ''f'')]
       = Inr ([label_statement (tok identifier 2 (str ''a''))
                 [instruction_statement (tok instruction 5 (str ''ret'')) []],
               label_statement (tok identifier 10 (str ''b'')) []],
              [tok keyword_proc_end 13 (str ''endp''), tok identifier 18 (str ''f'')])"
proof -
  let ?d1 = "tok dot_label 1 (str ''.'')"
  let ?n1 = "tok identifier 2 (str ''a'')"
  let ?c1 = "tok colon 3 (str '':'')"
  let ?ret = "tok instruction 5 (str ''ret'')"
  let ?d2 = "tok dot_label 9 (str ''.'')"
  let ?n2 = "tok identifier 10 (str ''b'')"
  let ?c2 = "tok colon 11 (str '':'')"
  let ?e = "tok keyword_proc_end 13 (str ''endp'')"
  let ?f = "tok identifier 18 (str ''f'')"
  let ?la = "label_statement ?n1 [instruction_statement ?ret []]"
  let ?lb = "label_statement ?n2 []"
  note c2 = label_statements_are_not_nested
  have ty: "type ?d1 = dot_label" "type ?n1 = identifier" "type ?c1 = colon"
    "type ?d2 = dot_label" "type ?n2 = identifier" "type ?c2 = colon"
    by (simp_all add: tok_def)
  have e: "parse_label [?d1, ?n1, ?c1, ?ret, ?d2, ?n2, ?c2] = Inr (Some ?la, [?d2, ?n2, ?c2])"
    by code_simp
  have plain: "kind (instruction_statement ?ret []) = instruction_kind"
    using c2 [where ts = "[?d1, ?n1, ?c1, ?ret, ?d2, ?n2, ?c2]" and r = "Some ?la"
                and rest = "[?d2, ?n2, ?c2]"] e
    by simp
  have stops: "parse_label_loop [] [?d2, ?n2, ?c2] = Inr ([], [?d2, ?n2, ?c2])"
    using c2 [where d = ?d2 and inner = "[]" and ts' = "[?n2, ?c2]"] ty
    by simp
  have first: "parse_label_loop [] [?ret, ?d2, ?n2, ?c2]
               = Inr ([instruction_statement ?ret []], [?d2, ?n2, ?c2])"
    by code_simp
  have first_body: "parse_label_loop [] [?ret, ?d2, ?n2, ?c2, ?e, ?f]
                    = Inr ([instruction_statement ?ret []], [?d2, ?n2, ?c2, ?e, ?f])"
    by code_simp
  have last_top: "parse_label_loop [] [] = Inr ([], [])"
    and last_body: "parse_label_loop [] [?e, ?f] = Inr ([], [?e, ?f])"
    by code_simp+
  have top: "make_tree_loop 15 [] [?d1, ?n1, ?c1, ?ret, ?d2, ?n2, ?c2]
             = make_tree_loop 15 ([] @ [?la, ?lb]) []"
    using c2 [where ?d1.0 = ?d1 and ?n1.0 = ?n1 and ?c1.0 = ?c1 and ?ts1.0 = "[?ret, ?d2, ?n2, ?c2]"
                and ?stmts1.0 = "[instruction_statement ?ret []]"
                and ?d2.0 = ?d2 and ?n2.0 = ?n2 and ?c2.0 = ?c2 and ?ts2.0 = "[]"
                and ?stmts2.0 = "[]" and ?rest2.0 = "[]" and m = 15 and branches = "[]"]
          ty first last_top
    by simp
  have top_end: "make_tree_loop 15 ([] @ [?la, ?lb]) [] = Inr ([?la, ?lb], [])"
    by code_simp
  have body: "parse_procedure_loop [] [?d1, ?n1, ?c1, ?ret, ?d2, ?n2, ?c2, ?e, ?f]
              = parse_procedure_loop ([] @ [?la, ?lb]) [?e, ?f]"
    using c2 [where ?d1.0 = ?d1 and ?n1.0 = ?n1 and ?c1.0 = ?c1 and ?ts1.0 = "[?ret, ?d2, ?n2, ?c2, ?e, ?f]"
                and ?stmts1.0 = "[instruction_statement ?ret []]"
                and ?d2.0 = ?d2 and ?n2.0 = ?n2 and ?c2.0 = ?c2 and ?ts2.0 = "[?e, ?f]"
                and ?stmts2.0 = "[]" and ?rest2.0 = "[?e, ?f]" and body = "[]"]
          ty first_body last_body
    by simp
  have body_end: "parse_procedure_loop ([] @ [?la, ?lb]) [?e, ?f] = Inr ([?la, ?lb], [?e, ?f])"
    by code_simp
  from e plain stops top top_end body body_end show ?thesis
    by (simp only: simp_thms)
qed

text \<open>The claim as written fails: in the source \<open>.a: .b:\<close> the second label is the second
  statement of the tree, not a nested statement of the first, and no input makes
  \<open>parse_label\<close> return a label statement with a label in its nested list.\<close>

theorem label_nested_in_label_counterexample:
  "make_tree 15 [tok dot_label 1 (str ''.''), tok identifier 2 (str ''a''), tok colon 3 (str '':''),
                 tok dot_label 5 (str ''.''), tok identifier 6 (str ''b''), tok colon 7 (str '':'')]
     = Inr (abstract_tree [label_statement (tok identifier 2 (str ''a'')) [],
                           label_statement (tok identifier 6 (str ''b'')) []])
   \<and> \<not> (\<exists>ts ident inner rest nested.
           parse_label ts = Inr (Some (label_statement ident inner), rest)
           \<and> nested \<in> set inner \<and> kind nested = label_kind)"
proof
  show "make_tree 15 [tok dot_label 1 (str ''.''), tok identifier 2 (str ''a''),
                      tok colon 3 (str '':''), tok dot_label 5 (str ''.''),
                      tok identifier 6 (str ''b''), tok colon 7 (str '':'')]
     = Inr (abstract_tree [label_statement (tok identifier 2 (str ''a'')) [],
                           label_statement (tok identifier 6 (str ''b'')) []])"
    by code_simp
next
  show "\<not> (\<exists>ts ident inner rest nested.
           parse_label ts = Inr (Some (label_statement ident inner), rest)
           \<and> nested \<in> set inner \<and> kind nested = label_kind)"
  proof
    assume "\<exists>ts ident inner rest nested.
           parse_label ts = Inr (Some (label_statement ident inner), rest)
           \<and> nested \<in> set inner \<and> kind nested = label_kind"
    then obtain ts ident inner rest nested where
      p: "parse_label ts = Inr (Some (label_statement ident inner), rest)" and
      n: "nested \<in> set inner" "kind nested = label_kind"
      by blast
    from parse_label_plain [OF p] n show False
      by auto
  qed
qed


section \<open>Procedures: matching names, no nested procedure\<close>

lemma parse_procedure_inner_statement_None:
  "parse_procedure_inner_statement ts = Inr (None, rest) \<Longrightarrow>
   rest = ts \<and> (\<exists>t ts'. ts = t # ts' \<and> type t = keyword_proc_end)"
  unfolding parse_procedure_inner_statement_def
  by (auto split: list.splits token_type.splits
           simp: parse_define_def parse_config_def parse_raw_def parse_instruction_def
                 parse_label_def and_then_Inr)

lemma parse_label_kind: "parse_label ts = Inr (Some s, rest) \<Longrightarrow> kind s = label_kind"
  by (auto simp: parse_label_def and_then_Inr)

lemma parse_procedure_inner_statement_kind:
  "parse_procedure_inner_statement ts = Inr (Some s, rest) \<Longrightarrow>
   kind s \<in> {define_kind, config_kind, raw_kind, instruction_kind, label_kind}"
  unfolding parse_procedure_inner_statement_def
  by (auto split: list.splits token_type.splits
           dest: parse_define_kind parse_config_kind parse_raw_kind parse_instruction_kind
                 parse_label_kind)

lemma parse_procedure_loop_result:
  "parse_procedure_loop inner ts = Inr (r, rest) \<Longrightarrow>
   take (length inner) r = inner
   \<and> (\<forall>s \<in> set (drop (length inner) r).
         kind s \<in> {define_kind, config_kind, raw_kind, instruction_kind, label_kind})
   \<and> (\<exists>t ts'. rest = t # ts' \<and> type t = keyword_proc_end)"
proof (induction inner ts rule: parse_procedure_loop.induct)
  case (1 inner ts0)
  from "1.prems" obtain block ts1 where
    b: "parse_procedure_inner_statement ts0 = Inr (block, ts1)" and
    r: "(case block of None \<Rightarrow> Inr (inner, ts1)
         | Some b \<Rightarrow> parse_procedure_loop (inner @ [b]) ts1) = Inr (r, rest)"
    by (auto simp: parse_procedure_loop.simps [of inner ts0] and_then_Inr)
  show ?case
  proof (cases block)
    case None
    with r have "r = inner" "rest = ts1" by simp_all
    with b None show ?thesis
      by (auto dest!: parse_procedure_inner_statement_None)
  next
    case (Some s)
    with b have k: "kind s \<in> {define_kind, config_kind, raw_kind, instruction_kind, label_kind}"
      by (auto dest: parse_procedure_inner_statement_kind)
    from r Some have "parse_procedure_loop (inner @ [s]) ts1 = Inr (r, rest)"
      by simp
    with "1.IH" [OF b Some] have
      t: "take (Suc (length inner)) r = inner @ [s]" and
      d: "\<forall>s \<in> set (drop (Suc (length inner)) r).
            kind s \<in> {define_kind, config_kind, raw_kind, instruction_kind, label_kind}" and
      e: "\<exists>t ts'. rest = t # ts' \<and> type t = keyword_proc_end"
      by simp_all
    from t have r_eq: "r = inner @ s # drop (Suc (length inner)) r"
      by (metis append_Cons append_Nil append_assoc append_take_drop_id)
    then have "take (length inner) r = inner"
      by (metis append_eq_conv_conj)
    moreover from r_eq have "drop (length inner) r = s # drop (Suc (length inner)) r"
      by (metis append_eq_conv_conj)
    ultimately show ?thesis
      using k d e by simp
  qed
qed

lemma parse_procedure_header:
  assumes "type p = keyword_proc_start" "type A = identifier"
  shows "parse_procedure (p # A # ts) =
           and_then (parse_procedure_loop [] ts) (\<lambda>inner_statements ts3.
           and_then (expect [keyword_proc_end] ts3) (\<lambda>_ ts4.
           and_then (expect [identifier] ts4) (\<lambda>proc_name_end ts5.
           if data proc_name_end \<noteq> data A
             then Inl (unmatching_procedure_names A proc_name_end)
             else Inr (Some (procedure_statement A proc_name_end inner_statements), ts5))))"
  using assms by (simp add: parse_procedure_def expect_def advance_def)

lemma parse_procedure_names:
  assumes "type p = keyword_proc_start" "type A = identifier"
    and "parse_procedure_loop [] ts = Inr (body, e # B # rest)" "type B = identifier"
  shows "parse_procedure (p # A # ts) =
           (if data B = data A then Inr (Some (procedure_statement A B body), rest)
            else Inl (unmatching_procedure_names A B))"
proof -
  from parse_procedure_loop_result [OF assms(3)] have "type e = keyword_proc_end"
    by simp
  with assms show ?thesis
    by (simp add: parse_procedure_header expect_def advance_def)
qed

lemma parse_procedure_success:
  assumes "parse_procedure ts = Inr (r, rest)"
  shows "\<exists>a b body. r = Some (procedure_statement a b body) \<and> data b = data a
           \<and> (\<forall>s \<in> set body.
                 kind s \<in> {define_kind, config_kind, raw_kind, instruction_kind, label_kind})"
proof -
  from assms obtain a b body ts2 ts3 ts5 where
    l: "parse_procedure_loop [] ts2 = Inr (body, ts3)" and
    r: "(if data b \<noteq> data a then Inl (unmatching_procedure_names a b)
         else Inr (Some (procedure_statement a b body), ts5)) = Inr (r, rest)"
    unfolding parse_procedure_def and_then_Inr by blast
  from r have "data b = data a" "r = Some (procedure_statement a b body)"
    by (auto split: if_splits)
  with parse_procedure_loop_result [OF l] show ?thesis
    by simp
qed

text \<open>Claim C3. Whenever \<open>parse_procedure\<close> succeeds, its result is a procedure statement
  whose closing and opening identifiers carry the same payload. For the tokens
  \<open>proc A <body> endp B\<close> (the body read by the procedure's loop up to the \<open>endp\<close>
  token \<open>e\<close>): the result is the procedure statement when the payload of \<open>B\<close> equals that of
  \<open>A\<close>, and otherwise the error \<open>unmatching_procedure_names A B\<close>, which carries both
  names; an error is no statement.\<close>

theorem procedure_names_must_match:
  "(parse_procedure ts = Inr (r, rest) \<longrightarrow>
      (\<exists>a b body. r = Some (procedure_statement a b body) \<and> data b = data a))
   \<and> (type p = keyword_proc_start \<and> type A = identifier
        \<and> parse_procedure_loop [] ts' = Inr (body, e # B # rest') \<and> type B = identifier \<longrightarrow>
      parse_procedure (p # A # ts') =
        (if data B = data A then Inr (Some (procedure_statement A B body), rest')
         else Inl (unmatching_procedure_names A B)))"
  using parse_procedure_success [of ts r rest] parse_procedure_names [of p A ts' body e B rest']
  by blast

theorem procedure_names_must_match_witness:
  "parse_procedure [tok keyword_proc_start 1 (str ''proc''), tok identifier 6 (str ''foo''),
                    tok instruction 10 (str ''ret''),
                    tok keyword_proc_end 14 (str ''endp''), tok identifier 19 (str ''foo'')]
     = Inr (Some (procedure_statement (tok identifier 6 (str ''foo''))
                    (tok identifier 19 (str ''foo''))
                    [instruction_statement (tok instruction 10 (str ''ret'')) []]), [])
   \<and> data (tok identifier 19 (str ''foo'')) = data (tok identifier 6 (str ''foo''))
   \<and> parse_procedure [tok keyword_proc_start 1 (str ''proc''), tok identifier 6 (str ''foo''),
                      tok instruction 10 (str ''ret''),
                      tok keyword_proc_end 14 (str ''endp''), tok identifier 19 (str ''bar'')]
     = Inl (unmatching_procedure_names (tok identifier 6 (str ''foo''))
              (tok identifier 19 (str ''bar'')))"
proof -
  let ?p = "tok keyword_proc_start 1 (str ''proc'')"
  let ?foo = "tok identifier 6 (str ''foo'')"
  let ?ret = "tok instruction 10 (str ''ret'')"
  let ?e = "tok keyword_proc_end 14 (str ''endp'')"
  let ?foo' = "tok identifier 19 (str ''foo'')"
  let ?bar = "tok identifier 19 (str ''bar'')"
  have ty: "type ?p = keyword_proc_start" "type ?foo = identifier" "type ?foo' = identifier"
    "type ?bar = identifier"
    by (simp_all add: tok_def)
  have d: "data ?foo' = data ?foo" "data ?bar \<noteq> data ?foo"
    by (simp_all add: tok_def)
  have l1: "parse_procedure_loop [] [?ret, ?e, ?foo']
            = Inr ([instruction_statement ?ret []], [?e, ?foo'])"
    by code_simp
  have l2: "parse_procedure_loop [] [?ret, ?e, ?bar]
            = Inr ([instruction_statement ?ret []], [?e, ?bar])"
    by code_simp
  have ok: "parse_procedure [?p, ?foo, ?ret, ?e, ?foo']
            = Inr (Some (procedure_statement ?foo ?foo' [instruction_statement ?ret []]), [])"
    using procedure_names_must_match
            [of _ _ _ ?p ?foo "[?ret, ?e, ?foo']" "[instruction_statement ?ret []]" ?e ?foo' "[]"]
          ty d l1
    by simp
  have bad: "parse_procedure [?p, ?foo, ?ret, ?e, ?bar]
             = Inl (unmatching_procedure_names ?foo ?bar)"
    using procedure_names_must_match
            [of _ _ _ ?p ?foo "[?ret, ?e, ?bar]" "[instruction_statement ?ret []]" ?e ?bar "[]"]
          ty d l2
    by simp
  from ok d(1) bad show ?thesis
    by (intro conjI)
qed


lemma parse_procedure_loop_at_proc:
  "type t = keyword_proc_start \<Longrightarrow>
   parse_procedure_loop inner (t # ts) = Inl procedure_inside_procedure"
  by (simp add: parse_procedure_loop.simps [of inner "t # ts"]
                parse_procedure_inner_statement_def)

lemma parse_label_loop_at_proc:
  "type t = keyword_proc_start \<Longrightarrow> parse_label_loop inner (t # ts) = Inl (unexpected_error t)"
  by (simp add: parse_label_loop.simps [of inner "t # ts"] parse_label_inner_statement_def)

lemma parse_procedure_loop_error:
  "type p = keyword_proc_start \<Longrightarrow> type A = identifier \<Longrightarrow>
   parse_procedure_loop [] ts = Inl err \<Longrightarrow> parse_procedure (p # A # ts) = Inl err"
  by (simp add: parse_procedure_header)

text \<open>Claim C4. In the loop over a procedure's body, whatever has been read so far, a
  \<open>proc\<close> token is the fatal error "Cannot define a procedure inside another" (and in
  the loop of a label, also of a label inside a procedure, it is the fatal error of an
  unexpected token); an error of the body's loop is the error of \<open>parse_procedure\<close>; so
  the body of a parsed procedure statement holds no procedure statement. A label
  \<open>.n:\<close> in the body, with the statements \<open>stmts\<close> its own loop reads, is appended to the
  procedure's nested statements as \<open>label_statement n stmts\<close>, the loop goes on after it,
  and the statements read so far stay the first statements of the body.\<close>

theorem procedure_body_rejects_proc_and_nests_label:
  "(type t = keyword_proc_start \<longrightarrow>
      parse_procedure_loop inner (t # ts) = Inl procedure_inside_procedure
      \<and> parse_label_loop inner (t # ts) = Inl (unexpected_error t))
   \<and> (type p = keyword_proc_start \<and> type A = identifier
        \<and> parse_procedure_loop [] ts1 = Inl err \<longrightarrow>
      parse_procedure (p # A # ts1) = Inl err)
   \<and> (parse_procedure ts2 = Inr (Some (procedure_statement a b body), rest2) \<longrightarrow>
      (\<forall>s \<in> set body. kind s \<noteq> procedure_kind))
   \<and> (type d = dot_label \<and> type n = identifier \<and> type c = colon
        \<and> parse_label_loop [] ts3 = Inr (stmts, rest3) \<longrightarrow>
      parse_procedure_loop inner3 (d # n # c # ts3) =
      parse_procedure_loop (inner3 @ [label_statement n stmts]) rest3)
   \<and> (parse_procedure_loop inner4 ts4 = Inr (body4, rest4) \<longrightarrow>
      take (length inner4) body4 = inner4)"
proof (intro conjI impI)
  assume "type t = keyword_proc_start"
  then show "parse_procedure_loop inner (t # ts) = Inl procedure_inside_procedure"
    and "parse_label_loop inner (t # ts) = Inl (unexpected_error t)"
    by (rule parse_procedure_loop_at_proc, rule parse_label_loop_at_proc)
next
  assume "type p = keyword_proc_start \<and> type A = identifier
          \<and> parse_procedure_loop [] ts1 = Inl err"
  then show "parse_procedure (p # A # ts1) = Inl err"
    by (simp add: parse_procedure_loop_error)
next
  assume "parse_procedure ts2 = Inr (Some (procedure_statement a b body), rest2)"
  from parse_procedure_success [OF this] show "\<forall>s \<in> set body. kind s \<noteq> procedure_kind"
    by auto
next
  assume "type d = dot_label \<and> type n = identifier \<and> type c = colon
          \<and> parse_label_loop [] ts3 = Inr (stmts, rest3)"
  then show "parse_procedure_loop inner3 (d # n # c # ts3) =
             parse_procedure_loop (inner3 @ [label_statement n stmts]) rest3"
    by (simp add: parse_procedure_loop_at_label)
next
  assume "parse_procedure_loop inner4 ts4 = Inr (body4, rest4)"
  from parse_procedure_loop_result [OF this] show "take (length inner4) body4 = inner4"
    by simp
qed

theorem procedure_body_rejects_proc_and_nests_label_witness:
  "parse_procedure [tok keyword_proc_start 1 (str ''proc''), tok identifier 6 (str ''f''),
                    tok instruction 8 (str ''ret''),
                    tok keyword_proc_start 12 (str ''proc''), tok identifier 17 (str ''g''),
                    tok keyword_proc_end 19 (str ''endp''), tok identifier 24 (str ''g''),
                    tok keyword_proc_end 26 (str ''endp''), tok identifier 31 (str ''f'')]
     = Inl procedure_inside_procedure
   \<and> parse_procedure [tok keyword_proc_start 1 (str ''proc''), tok identifier 6 (str ''f''),
                      tok dot_label 8 (str ''.''), tok identifier 9 (str ''l''),
                      tok colon 10 (str '':''), tok instruction 12 (str ''ret''),
                      tok keyword_proc_end 16 (str ''endp''), tok identifier 21 (str ''f'')]
     = Inr (Some (procedure_statement (tok identifier 6 (str ''f''))
                    (tok identifier 21 (str ''f''))
                    [label_statement (tok identifier 9 (str ''l''))
                       [instruction_statement (tok instruction 12 (str ''ret'')) []]]), [])
   \<and> kind (label_statement (tok identifier 9 (str ''l''))
             [instruction_statement (tok instruction 12 (str ''ret'')) []]) \<noteq> procedure_kind
   \<and> parse_procedure_loop [instruction_statement (tok instruction 8 (str ''ret'')) []]
        [tok keyword_proc_start 12 (str ''proc''), tok identifier 17 (str ''g'')]
     = Inl procedure_inside_procedure
   \<and> parse_label_loop [] [tok keyword_proc_start 12 (str ''proc''), tok identifier 17 (str ''g'')]
     = Inl (unexpected_error (tok keyword_proc_start 12 (str ''proc'')))"
proof -
  let ?p = "tok keyword_proc_start 1 (str ''proc'')"
  let ?f = "tok identifier 6 (str ''f'')"
  let ?ret = "tok instruction 8 (str ''ret'')"
  let ?p2 = "tok keyword_proc_start 12 (str ''proc'')"
  let ?g = "tok identifier 17 (str ''g'')"
  let ?tail = "[tok keyword_proc_end 19 (str ''endp''), tok identifier 24 (str ''g''),
                tok keyword_proc_end 26 (str ''endp''), tok identifier 31 (str ''f'')]"
  let ?d = "tok dot_label 8 (str ''.'')"
  let ?l = "tok identifier 9 (str ''l'')"
  let ?c = "tok colon 10 (str '':'')"
  let ?ret2 = "tok instruction 12 (str ''ret'')"
  let ?e = "tok keyword_proc_end 16 (str ''endp'')"
  let ?f2 = "tok identifier 21 (str ''f'')"
  let ?lab = "label_statement ?l [instruction_statement ?ret2 []]"
  note c4 = procedure_body_rejects_proc_and_nests_label
  have ty: "type ?p = keyword_proc_start" "type ?f = identifier" "type ?p2 = keyword_proc_start"
    "type ?d = dot_label" "type ?l = identifier" "type ?c = colon"
    by (simp_all add: tok_def)
  have body_err: "parse_procedure_loop [] (?ret # ?p2 # ?g # ?tail) = Inl procedure_inside_procedure"
    by code_simp
  have nested: "parse_procedure (?p # ?f # ?ret # ?p2 # ?g # ?tail) = Inl procedure_inside_procedure"
    using c4 [where p = ?p and A = ?f and ?ts1.0 = "?ret # ?p2 # ?g # ?tail"
                 and err = procedure_inside_procedure] ty body_err
    by simp
  have at_proc: "parse_procedure_loop [instruction_statement ?ret []] [?p2, ?g]
                   = Inl procedure_inside_procedure
                 \<and> parse_label_loop [] [?p2, ?g] = Inl (unexpected_error ?p2)"
    using c4 [where t = ?p2 and inner = "[instruction_statement ?ret []]" and ts = "[?g]"]
          c4 [where t = ?p2 and inner = "[]" and ts = "[?g]"] ty
    by simp
  have lab_loop: "parse_label_loop [] [?ret2, ?e, ?f2]
                  = Inr ([instruction_statement ?ret2 []], [?e, ?f2])"
    by code_simp
  have step: "parse_procedure_loop [] [?d, ?l, ?c, ?ret2, ?e, ?f2]
              = parse_procedure_loop ([] @ [?lab]) [?e, ?f2]"
    using c4 [where d = ?d and n = ?l and c = ?c and ?ts3.0 = "[?ret2, ?e, ?f2]"
                 and stmts = "[instruction_statement ?ret2 []]" and ?rest3.0 = "[?e, ?f2]"
                 and ?inner3.0 = "[]"] ty lab_loop
    by simp
  have whole: "parse_procedure [?p, ?f, ?d, ?l, ?c, ?ret2, ?e, ?f2]
               = Inr (Some (procedure_statement ?f ?f2 [?lab]), [])"
    by code_simp
  have no_proc: "kind ?lab \<noteq> procedure_kind"
    using c4 [where ?ts2.0 = "[?p, ?f, ?d, ?l, ?c, ?ret2, ?e, ?f2]" and a = ?f and b = ?f2
                 and body = "[?lab]" and ?rest2.0 = "[]"] whole
    by simp
  from nested whole no_proc at_proc show ?thesis
    by simp
qed


section \<open>Operands\<close>

lemma expect_Cons:
  "expect types (t # ts) = (if type t \<in> set types then Inr (t, ts) else Inl (unexpected_error t))"
  by (simp add: expect_def advance_def)

lemma expect_Nil: "expect types [] = Inl expected_more_tokens"
  by (simp add: expect_def advance_def)

text \<open>Claim C6. \<open>parse_operand\<close> by the type of the leading token \<open>t\<close>: a register name
  gives a register operand; \<open>@\<close>, \<open>$\<close> and \<open>#\<close> followed by an identifier \<open>i\<close> give the
  label, procedure and sprite operand of \<open>i\<close>, followed by another token they give the
  error of an unexpected token, and at the end of the tokens the error of missing tokens;
  \<open>[\<close> followed by a number or identifier \<open>x\<close> and \<open>]\<close> gives the indirect operand of
  \<open>x\<close>; a number or an identifier gives an immediate operand; any other leading token is
  an unexpected token.\<close>

theorem parse_operand_dispatch:
  "(type t = register_name \<longrightarrow> parse_operand (t # ts) = Inr (make_reg t, ts))
   \<and> (type t = at_label \<and> type i = identifier \<longrightarrow>
        parse_operand (t # i # ts) = Inr (make_label i, ts))
   \<and> (type t = dollar_proc \<and> type i = identifier \<longrightarrow>
        parse_operand (t # i # ts) = Inr (make_proc i, ts))
   \<and> (type t = hash_sprite \<and> type i = identifier \<longrightarrow>
        parse_operand (t # i # ts) = Inr (make_sprite i, ts))
   \<and> (type t \<in> {at_label, dollar_proc, hash_sprite} \<and> type i \<noteq> identifier \<longrightarrow>
        parse_operand (t # i # ts) = Inl (unexpected_error i))
   \<and> (type t \<in> {at_label, dollar_proc, hash_sprite} \<longrightarrow>
        parse_operand [t] = Inl expected_more_tokens)
   \<and> (type t = bracket_open \<and> type x \<in> {numerical, identifier} \<and> type c = bracket_close \<longrightarrow>
        parse_operand (t # x # c # ts) = Inr (make_indirect x, ts))
   \<and> (type t \<in> {numerical, identifier} \<longrightarrow> parse_operand (t # ts) = Inr (make_immediate t, ts))
   \<and> (type t \<notin> {register_name, identifier, numerical, at_label, dollar_proc, hash_sprite,
                  bracket_open} \<longrightarrow>
        parse_operand (t # ts) = Inl (unexpected_error t))"
  by (auto simp: parse_operand_def expect_Cons expect_Nil)

theorem parse_operand_dispatch_witness:
  "parse_operand [tok register_name 5 (str ''v0''), tok comma 7 (str '','')]
     = Inr (make_reg (tok register_name 5 (str ''v0'')), [tok comma 7 (str '','')])
   \<and> parse_operand [tok at_label 5 (str ''@''), tok identifier 6 (str ''loop'')]
     = Inr (make_label (tok identifier 6 (str ''loop'')), [])
   \<and> parse_operand [tok dollar_proc 5 (str ''$''), tok identifier 6 (str ''draw'')]
     = Inr (make_proc (tok identifier 6 (str ''draw'')), [])
   \<and> parse_operand [tok hash_sprite 5 (str ''#''), tok identifier 6 (str ''ball'')]
     = Inr (make_sprite (tok identifier 6 (str ''ball'')), [])
   \<and> parse_operand [tok at_label 5 (str ''@''), tok numerical 6 (uint16 7)]
     = Inl (unexpected_error (tok numerical 6 (uint16 7)))
   \<and> parse_operand [tok hash_sprite 5 (str ''#'')] = Inl expected_more_tokens
   \<and> parse_operand [tok bracket_open 5 (str ''[''), tok numerical 6 (uint16 512),
                     tok bracket_close 9 (str '']'')]
     = Inr (make_indirect (tok numerical 6 (uint16 512)), [])
   \<and> parse_operand [tok numerical 5 (uint16 5)] = Inr (make_immediate (tok numerical 5 (uint16 5)), [])
   \<and> parse_operand [tok identifier 5 (str ''X'')] = Inr (make_immediate (tok identifier 5 (str ''X'')), [])
   \<and> parse_operand [tok colon 5 (str '':'')] = Inl (unexpected_error (tok colon 5 (str '':'')))"
proof -
  note c6 = parse_operand_dispatch
  have "parse_operand [tok register_name 5 (str ''v0''), tok comma 7 (str '','')]
     = Inr (make_reg (tok register_name 5 (str ''v0'')), [tok comma 7 (str '','')])"
    using c6 [where t = "tok register_name 5 (str ''v0'')" and ts = "[tok comma 7 (str '','')]"]
    by (simp add: tok_def)
  moreover have "parse_operand [tok at_label 5 (str ''@''), tok identifier 6 (str ''loop'')]
     = Inr (make_label (tok identifier 6 (str ''loop'')), [])"
    using c6 [where t = "tok at_label 5 (str ''@'')" and i = "tok identifier 6 (str ''loop'')"
                and ts = "[]"]
    by (simp add: tok_def)
  moreover have "parse_operand [tok dollar_proc 5 (str ''$''), tok identifier 6 (str ''draw'')]
     = Inr (make_proc (tok identifier 6 (str ''draw'')), [])"
    using c6 [where t = "tok dollar_proc 5 (str ''$'')" and i = "tok identifier 6 (str ''draw'')"
                and ts = "[]"]
    by (simp add: tok_def)
  moreover have "parse_operand [tok hash_sprite 5 (str ''#''), tok identifier 6 (str ''ball'')]
     = Inr (make_sprite (tok identifier 6 (str ''ball'')), [])"
    using c6 [where t = "tok hash_sprite 5 (str ''#'')" and i = "tok identifier 6 (str ''ball'')"
                and ts = "[]"]
    by (simp add: tok_def)
  moreover have "parse_operand [tok at_label 5 (str ''@''), tok numerical 6 (uint16 7)]
     = Inl (unexpected_error (tok numerical 6 (uint16 7)))"
    using c6 [where t = "tok at_label 5 (str ''@'')" and i = "tok numerical 6 (uint16 7)"
                and ts = "[]"]
    by (simp add: tok_def)
  moreover have "parse_operand [tok hash_sprite 5 (str ''#'')] = Inl expected_more_tokens"
    using c6 [where t = "tok hash_sprite 5 (str ''#'')"]
    by (simp add: tok_def)
  moreover have "parse_operand [tok bracket_open 5 (str ''[''), tok numerical 6 (uint16 512),
                     tok bracket_close 9 (str '']'')]
     = Inr (make_indirect (tok numerical 6 (uint16 512)), [])"
    using c6 [where t = "tok bracket_open 5 (str ''['')" and x = "tok numerical 6 (uint16 512)"
                and c = "tok bracket_close 9 (str '']'')" and ts = "[]"]
    by (simp add: tok_def)
  moreover have "parse_operand [tok numerical 5 (uint16 5)]
     = Inr (make_immediate (tok numerical 5 (uint16 5)), [])"
    using c6 [where t = "tok numerical 5 (uint16 5)" and ts = "[]"]
    by (simp add: tok_def)
  moreover have "parse_operand [tok identifier 5 (str ''X'')]
     = Inr (make_immediate (tok identifier 5 (str ''X'')), [])"
    using c6 [where t = "tok identifier 5 (str ''X'')" and ts = "[]"]
    by (simp add: tok_def)
  moreover have "parse_operand [tok colon 5 (str '':'')]
     = Inl (unexpected_error (tok colon 5 (str '':'')))"
    using c6 [where t = "tok colon 5 (str '':'')" and ts = "[]"]
    by (simp add: tok_def)
  ultimately show ?thesis
    by (intro conjI)
qed


section \<open>Sprites have between one row and the maximum\<close>

lemma sprite_rows_count:
  "sprite_rows m ident sp ts = Inr (r, rest) \<Longrightarrow> row_count sp < row_count r \<and> row_count r \<le> m"
proof (induction m ident sp ts rule: sprite_rows.induct)
  case (1 m ident sp ts0)
  from "1.prems" obtain tok ts1 where
    e: "expect [numerical] ts0 = Inr (tok, ts1)" and
    r1: "(case to_integer tok of Inl e \<Rightarrow> Inl e | Inr v \<Rightarrow>
           if row_count sp \<ge> m
             then Inl (sprite_too_much_pixels ident (row_count sp) m)
           else if \<not> imm_matches_format v fmt_imm8
             then Inl sprite_digit_too_large
           else
             let sp' = sp\<lparr>sprite_data := (sprite_data sp)[row_count sp := ucast v],
                          row_count := row_count sp + 1\<rparr>
             in if fst (advance_if comma ts1)
                  then sprite_rows m ident sp' (snd (advance_if comma ts1))
                  else Inr (sp', snd (advance_if comma ts1))) = Inr (r, rest)"
    unfolding sprite_rows.simps [of m ident sp ts0] and_then_Inr by blast
  from r1 obtain v where v: "to_integer tok = Inr v"
    by (cases "to_integer tok") auto
  from r1 v have c1: "\<not> m \<le> row_count sp"
    by (auto split: if_splits)
  from r1 v c1 have c2: "\<not> \<not> imm_matches_format v fmt_imm8"
    by (auto split: if_splits)
  define sp' where "sp' = sp\<lparr>sprite_data := (sprite_data sp)[row_count sp := ucast v],
                               row_count := row_count sp + 1\<rparr>"
  have count: "row_count sp' = row_count sp + 1"
    by (simp add: sp'_def)
  show ?case
  proof (cases "fst (advance_if comma ts1)")
    case False
    with r1 v c1 c2 have "r = sp'"
      by (simp add: Let_def sp'_def)
    with count c1 show ?thesis by simp
  next
    case True
    with r1 v c1 c2
    have "sprite_rows m ident sp' (snd (advance_if comma ts1)) = Inr (r, rest)"
      by (simp add: Let_def sp'_def)
    with "1.IH" [OF e v c1 c2 sp'_def [symmetric, THEN sym] True]
    have "row_count sp' < row_count r \<and> row_count r \<le> m"
      by simp
    with count show ?thesis by simp
  qed
qed

lemma parse_sprite_count:
  assumes "parse_sprite m ts = Inr (r, rest)"
  shows "\<exists>ident sp. r = Some (sprite_statement ident sp) \<and> 1 \<le> row_count sp \<and> row_count sp \<le> m"
proof -
  from assms obtain ident ts3 sp ts4 where
    rows: "sprite_rows m ident (empty_sprite m) ts3 = Inr (sp, ts4)" and
    r: "r = Some (sprite_statement ident sp)"
    unfolding parse_sprite_def and_then_Inr by auto
  from sprite_rows_count [OF rows] have "0 < row_count sp \<and> row_count sp \<le> m"
    by (simp add: empty_sprite_def)
  with r show ?thesis
    by auto
qed

lemma parse_sprite_no_rows:
  assumes "type s = keyword_sprite" "type n = identifier" "type bo = bracket_open"
    and "type x \<noteq> numerical"
  shows "parse_sprite m (s # n # bo # x # ts) = Inl (unexpected_error x)"
  using assms
  by (simp add: parse_sprite_def expect_Cons
                sprite_rows.simps [of m n "empty_sprite m" "x # ts"])

text \<open>Claim C10. A sprite statement produced by \<open>parse_sprite\<close> has a row count from 1 to
  the maximum \<open>m\<close>. After \<open>sprite name [\<close> a token that is not a number, the closing
  bracket of \<open>sprite name [ ]\<close> among them, is the parse error of an unexpected token.\<close>

theorem sprite_has_one_to_max_rows:
  "(parse_sprite m ts = Inr (r, rest) \<longrightarrow>
      (\<exists>ident sp. r = Some (sprite_statement ident sp)
         \<and> 1 \<le> row_count sp \<and> row_count sp \<le> m))
   \<and> (type s = keyword_sprite \<and> type n = identifier \<and> type bo = bracket_open
        \<and> type bc = bracket_close \<longrightarrow>
      parse_sprite m (s # n # bo # bc # ts') = Inl (unexpected_error bc))"
  using parse_sprite_count [of m ts r rest] parse_sprite_no_rows [of s n bo bc m ts']
  by auto

theorem sprite_has_one_to_max_rows_witness:
  "parse_sprite 15 [tok keyword_sprite 1 (str ''sprite''), tok identifier 8 (str ''s''),
                    tok bracket_open 10 (str ''[''), tok numerical 11 (uint16 1),
                    tok comma 12 (str '',''), tok numerical 13 (uint16 2),
                    tok comma 14 (str '',''), tok numerical 15 (uint16 3),
                    tok bracket_close 16 (str '']'')]
     = Inr (Some (sprite_statement (tok identifier 8 (str ''s''))
                    \<lparr>sprite_data = [1, 2, 3, 0, 0, 0, 0, 0, 0, 0, 0, 0, 0, 0, 0],
                       row_count = 3\<rparr>), [])
   \<and> (1::nat) \<le> 3 \<and> (3::nat) \<le> 15
   \<and> parse_sprite 15 [tok keyword_sprite 1 (str ''sprite''), tok identifier 8 (str ''s''),
                      tok bracket_open 10 (str ''[''), tok bracket_close 11 (str '']'')]
     = Inl (unexpected_error (tok bracket_close 11 (str '']'')))"
proof -
  let ?ts = "[tok keyword_sprite 1 (str ''sprite''), tok identifier 8 (str ''s''),
              tok bracket_open 10 (str ''[''), tok numerical 11 (uint16 1),
              tok comma 12 (str '',''), tok numerical 13 (uint16 2),
              tok comma 14 (str '',''), tok numerical 15 (uint16 3),
              tok bracket_close 16 (str '']'')]"
  let ?sp = "\<lparr>sprite_data = [1, 2, 3, 0, 0, 0, 0, 0, 0, 0, 0, 0, 0, 0, 0 :: 8 word],
              row_count = 3\<rparr>"
  have e: "parse_sprite 15 ?ts = Inr (Some (sprite_statement (tok identifier 8 (str ''s'')) ?sp), [])"
    by code_simp
  have "(1::nat) \<le> row_count ?sp \<and> row_count ?sp \<le> 15"
    using sprite_has_one_to_max_rows [where m = 15 and ts = ?ts and rest = "[]"
            and r = "Some (sprite_statement (tok identifier 8 (str ''s'')) ?sp)"] e
    by simp
  moreover have "parse_sprite 15 [tok keyword_sprite 1 (str ''sprite''), tok identifier 8 (str ''s''),
                      tok bracket_open 10 (str ''[''), tok bracket_close 11 (str '']'')]
     = Inl (unexpected_error (tok bracket_close 11 (str '']'')))"
    using sprite_has_one_to_max_rows [where m = 15 and s = "tok keyword_sprite 1 (str ''sprite'')"
            and n = "tok identifier 8 (str ''s'')" and bo = "tok bracket_open 10 (str ''['')"
            and bc = "tok bracket_close 11 (str '']'')" and ts' = "[]"]
    by (simp add: tok_def)
  ultimately show ?thesis
    using e by simp
qed

section \<open>The end of the tokens and the end-of-file token\<close>











section \<open>Sprite rows: eight bits each, at most the maximum\<close>

lemma row_list_Nil: "row_list r [] = [r]"
  by (simp add: row_list_def)

lemma row_list_Cons: "row_list r ((c, r') # crs) = r # c # row_list r' crs"
  by (simp add: row_list_def)

lemma sprite_rows_last:
  assumes "type r = numerical" "data r = uint16 v" "type x \<noteq> comma"
  shows "sprite_rows m n sp (r # x # ts) =
           (if row_count sp \<ge> m then Inl (sprite_too_much_pixels n (row_count sp) m)
            else if \<not> imm_matches_format v fmt_imm8 then Inl sprite_digit_too_large
            else Inr (store_row sp v, x # ts))"
  using assms
  by (simp add: sprite_rows.simps [of m n sp "r # x # ts"] expect_Cons to_integer_def
                advance_if_def Let_def store_row_def)

lemma sprite_rows_more:
  assumes "type r = numerical" "data r = uint16 v" "type c = comma"
  shows "sprite_rows m n sp (r # c # ts) =
           (if row_count sp \<ge> m then Inl (sprite_too_much_pixels n (row_count sp) m)
            else if \<not> imm_matches_format v fmt_imm8 then Inl sprite_digit_too_large
            else sprite_rows m n (store_row sp v) ts)"
  using assms
  by (simp add: sprite_rows.simps [of m n sp "r # c # ts"] expect_Cons to_integer_def
                advance_if_def Let_def store_row_def)

lemma store_row_filled:
  assumes "length xs < m"
  shows "store_row \<lparr>sprite_data = xs @ replicate (m - length xs) 0, row_count = length xs\<rparr> v
         = \<lparr>sprite_data = (xs @ [ucast v]) @ replicate (m - length (xs @ [ucast v])) 0,
            row_count = length (xs @ [ucast v])\<rparr>"
proof -
  from assms obtain k where k: "m - length xs = Suc k"
    by (cases "m - length xs") auto
  then have "m - Suc (length xs) = k" by simp
  with k show ?thesis
    by (simp add: store_row_def list_update_append)
qed

lemma sprite_rows_exact:
  assumes "type r = numerical" "\<forall>(c, r') \<in> set crs. type c = comma \<and> type r' = numerical"
    and "map data (r # map snd crs) = map uint16 vals"
    and "type bc \<noteq> comma" "length xs \<le> m"
  shows "sprite_rows m n \<lparr>sprite_data = xs @ replicate (m - length xs) 0, row_count = length xs\<rparr>
           (row_list r crs @ bc # rest) =
         (if \<exists>v \<in> set (take (m - length xs) vals). \<not> imm_matches_format v fmt_imm8
            then Inl sprite_digit_too_large
          else if length xs + length vals > m
            then Inl (sprite_too_much_pixels n m m)
          else Inr (\<lparr>sprite_data = (xs @ map ucast vals)
                                     @ replicate (m - length (xs @ map ucast vals)) 0,
                     row_count = length (xs @ map ucast vals)\<rparr>, bc # rest))"
  using assms
proof (induction crs arbitrary: r vals xs)
  case Nil
  then obtain v where v: "vals = [v]" "data r = uint16 v"
    by (cases vals) auto
  show ?case
  proof (cases "length xs < m")
    case True
    with Nil v show ?thesis
      by (simp add: row_list_Nil sprite_rows_last store_row_filled)
  next
    case False
    with Nil.prems have "length xs = m" by simp
    with Nil v show ?thesis
      by (simp add: row_list_Nil sprite_rows_last)
  qed
next
  case (Cons cr crs)
  obtain c r' where cr: "cr = (c, r')" by (cases cr)
  from Cons.prems cr obtain v vals' where v: "vals = v # vals'" "data r = uint16 v"
    "map data (r' # map snd crs) = map uint16 vals'"
    by (cases vals) auto
  from Cons.prems cr have ty: "type c = comma" "type r' = numerical"
    "\<forall>(c, r') \<in> set crs. type c = comma \<and> type r' = numerical"
    by auto
  show ?case
  proof (cases "length xs < m")
    case True
    then have le: "length (xs @ [ucast v]) \<le> m" by simp
    from True obtain k where k: "m - length xs = Suc k"
      by (cases "m - length xs") auto
    have IH: "sprite_rows m n
                \<lparr>sprite_data = (xs @ [ucast v]) @ replicate (m - length (xs @ [ucast v])) 0,
                   row_count = length (xs @ [ucast v])\<rparr>
                (row_list r' crs @ bc # rest) =
         (if \<exists>v \<in> set (take (m - length (xs @ [ucast v])) vals'). \<not> imm_matches_format v fmt_imm8
            then Inl sprite_digit_too_large
          else if length (xs @ [ucast v]) + length vals' > m
            then Inl (sprite_too_much_pixels n m m)
          else Inr (\<lparr>sprite_data = ((xs @ [ucast v]) @ map ucast vals')
                                     @ replicate (m - length ((xs @ [ucast v]) @ map ucast vals')) 0,
                     row_count = length ((xs @ [ucast v]) @ map ucast vals')\<rparr>, bc # rest))"
      by (rule Cons.IH [OF ty(2) ty(3) v(3) Cons.prems(4) le])
    have "sprite_rows m n \<lparr>sprite_data = xs @ replicate (m - length xs) 0, row_count = length xs\<rparr>
            (row_list r (cr # crs) @ bc # rest) =
          (if \<not> imm_matches_format v fmt_imm8 then Inl sprite_digit_too_large
           else sprite_rows m n
                \<lparr>sprite_data = (xs @ [ucast v]) @ replicate (m - length (xs @ [ucast v])) 0,
                   row_count = length (xs @ [ucast v])\<rparr>
                (row_list r' crs @ bc # rest))"
      using True Cons.prems(1) v(2) ty(1)
      by (simp add: cr row_list_Cons sprite_rows_more store_row_filled)
    also have "\<dots> = (if \<exists>v \<in> set (take (m - length xs) vals). \<not> imm_matches_format v fmt_imm8
            then Inl sprite_digit_too_large
          else if length xs + length vals > m
            then Inl (sprite_too_much_pixels n m m)
          else Inr (\<lparr>sprite_data = (xs @ map ucast vals)
                                     @ replicate (m - length (xs @ map ucast vals)) 0,
                     row_count = length (xs @ map ucast vals)\<rparr>, bc # rest))"
    proof -
      from k have k': "m - Suc (length xs) = k" by simp
      show ?thesis
        unfolding IH using k k' v(1) by simp
    qed
    finally show ?thesis .
  next
    case False
    with Cons.prems have "length xs = m" by simp
    with Cons.prems(1) v ty show ?thesis
      by (simp add: cr row_list_Cons sprite_rows_more)
  qed
qed

lemma parse_sprite_exact:
  assumes "type s = keyword_sprite" "type n = identifier" "type bo = bracket_open"
    and "type bc = bracket_close"
    and "type r = numerical" "\<forall>(c, r') \<in> set crs. type c = comma \<and> type r' = numerical"
    and "map data (r # map snd crs) = map uint16 vals"
  shows "parse_sprite m (s # n # bo # row_list r crs @ bc # rest) =
         (if \<exists>v \<in> set (take m vals). \<not> imm_matches_format v fmt_imm8
            then Inl sprite_digit_too_large
          else if length vals > m
            then Inl (sprite_too_much_pixels n m m)
          else Inr (Some (sprite_statement n
                      \<lparr>sprite_data = map ucast vals @ replicate (m - length vals) 0,
                         row_count = length vals\<rparr>), rest))"
proof -
  have "type bc \<noteq> comma"
    using assms(4) by simp
  from sprite_rows_exact [OF assms(5) assms(6) assms(7) this, of "[]" m n rest]
  have "sprite_rows m n (empty_sprite m) (row_list r crs @ bc # rest) =
         (if \<exists>v \<in> set (take m vals). \<not> imm_matches_format v fmt_imm8
            then Inl sprite_digit_too_large
          else if length vals > m
            then Inl (sprite_too_much_pixels n m m)
          else Inr (\<lparr>sprite_data = map ucast vals @ replicate (m - length vals) 0,
                     row_count = length vals\<rparr>, bc # rest))"
    by (simp add: empty_sprite_def)
  with assms(1-4) show ?thesis
    by (simp add: parse_sprite_def expect_Cons)
qed

text \<open>Claim C5. For the tokens \<open>sprite n [ r, ... ] rest\<close>, whose rows are numbers with the
  values \<open>vals\<close>: when some value does not match the 8-bit format, or when there are more
  rows than the maximum \<open>m\<close>, \<open>parse_sprite\<close> throws (the value error when the value
  stands among the first \<open>m\<close> rows, else the error of too many rows); when every value
  matches and there are at most \<open>m\<close> rows, it returns the sprite statement with these
  rows, in order, and their count.\<close>

theorem sprite_rows_fit_eight_bits_and_maximum:
  assumes "type s = keyword_sprite" "type n = identifier" "type bo = bracket_open"
    and "type bc = bracket_close"
    and "type r = numerical" "\<forall>(c, r') \<in> set crs. type c = comma \<and> type r' = numerical"
    and "map data (r # map snd crs) = map uint16 vals"
  shows "((\<exists>v \<in> set vals. \<not> imm_matches_format v fmt_imm8) \<longrightarrow>
            parse_sprite m (s # n # bo # row_list r crs @ bc # rest)
              \<in> {Inl sprite_digit_too_large, Inl (sprite_too_much_pixels n m m)})
       \<and> (length vals > m \<longrightarrow>
            parse_sprite m (s # n # bo # row_list r crs @ bc # rest)
              \<in> {Inl sprite_digit_too_large, Inl (sprite_too_much_pixels n m m)})
       \<and> ((\<forall>v \<in> set vals. imm_matches_format v fmt_imm8) \<and> length vals \<le> m \<longrightarrow>
            parse_sprite m (s # n # bo # row_list r crs @ bc # rest)
              = Inr (Some (sprite_statement n
                       \<lparr>sprite_data = map ucast vals @ replicate (m - length vals) 0,
                          row_count = length vals\<rparr>), rest))"
proof (intro conjI impI)
  note exact = parse_sprite_exact [OF assms, of m rest]
  {
    assume "\<exists>v \<in> set vals. \<not> imm_matches_format v fmt_imm8"
    then obtain v where v: "v \<in> set vals" "\<not> imm_matches_format v fmt_imm8"
      by blast
    show "parse_sprite m (s # n # bo # row_list r crs @ bc # rest)
            \<in> {Inl sprite_digit_too_large, Inl (sprite_too_much_pixels n m m)}"
    proof (cases "length vals > m")
      case True
      with exact show ?thesis by simp
    next
      case False
      then have "take m vals = vals" by simp
      with exact v show ?thesis by auto
    qed
  }
  {
    assume "length vals > m"
    with exact show "parse_sprite m (s # n # bo # row_list r crs @ bc # rest)
            \<in> {Inl sprite_digit_too_large, Inl (sprite_too_much_pixels n m m)}"
      by simp
  }
  {
    assume a: "(\<forall>v \<in> set vals. imm_matches_format v fmt_imm8) \<and> length vals \<le> m"
    then have "\<not> (\<exists>v \<in> set (take m vals). \<not> imm_matches_format v fmt_imm8)"
      by (auto dest: in_set_takeD)
    with exact a show "parse_sprite m (s # n # bo # row_list r crs @ bc # rest)
              = Inr (Some (sprite_statement n
                       \<lparr>sprite_data = map ucast vals @ replicate (m - length vals) 0,
                          row_count = length vals\<rparr>), rest)"
      by simp
  }
qed

theorem sprite_rows_fit_eight_bits_and_maximum_witness:
  "parse_sprite 15 [tok keyword_sprite 1 (str ''sprite''), tok identifier 8 (str ''s''),
                    tok bracket_open 10 (str ''[''), tok numerical 11 (uint16 1),
                    tok comma 12 (str '',''), tok numerical 13 (uint16 255),
                    tok bracket_close 16 (str '']'')]
     = Inr (Some (sprite_statement (tok identifier 8 (str ''s''))
                    \<lparr>sprite_data = [1, 255, 0, 0, 0, 0, 0, 0, 0, 0, 0, 0, 0, 0, 0],
                       row_count = 2\<rparr>), [])
   \<and> parse_sprite 15 [tok keyword_sprite 1 (str ''sprite''), tok identifier 8 (str ''s''),
                      tok bracket_open 10 (str ''[''), tok numerical 11 (uint16 1),
                      tok comma 12 (str '',''), tok numerical 13 (uint16 256),
                      tok bracket_close 16 (str '']'')]
     = Inl sprite_digit_too_large
   \<and> parse_sprite 1 [tok keyword_sprite 1 (str ''sprite''), tok identifier 8 (str ''s''),
                     tok bracket_open 10 (str ''[''), tok numerical 11 (uint16 1),
                     tok comma 12 (str '',''), tok numerical 13 (uint16 255),
                     tok bracket_close 16 (str '']'')]
     = Inl (sprite_too_much_pixels (tok identifier 8 (str ''s'')) 1 1)"
proof -
  let ?s = "tok keyword_sprite 1 (str ''sprite'')"
  let ?n = "tok identifier 8 (str ''s'')"
  let ?bo = "tok bracket_open 10 (str ''['')"
  let ?r = "tok numerical 11 (uint16 1)"
  let ?c = "tok comma 12 (str '','')"
  let ?r2 = "tok numerical 13 (uint16 255)"
  let ?r3 = "tok numerical 13 (uint16 256)"
  let ?bc = "tok bracket_close 16 (str '']'')"
  note c5 = sprite_rows_fit_eight_bits_and_maximum
  have ty: "type ?s = keyword_sprite" "type ?n = identifier" "type ?bo = bracket_open"
    "type ?bc = bracket_close" "type ?r = numerical"
    by (simp_all add: tok_def)
  have rows2: "\<forall>(c, r') \<in> set [(?c, ?r2)]. type c = comma \<and> type r' = numerical"
    and rows3: "\<forall>(c, r') \<in> set [(?c, ?r3)]. type c = comma \<and> type r' = numerical"
    by (simp_all add: tok_def)
  have vals2: "map data (?r # map snd [(?c, ?r2)]) = map uint16 [1, 255]"
    and vals3: "map data (?r # map snd [(?c, ?r3)]) = map uint16 [1, 256]"
    by (simp_all add: tok_def)
  have fits: "\<forall>v \<in> set [1, 255 :: 16 word]. imm_matches_format v fmt_imm8"
    and too_wide: "\<exists>v \<in> set [1, 256 :: 16 word]. \<not> imm_matches_format v fmt_imm8"
    by (simp_all add: imm_matches_format_def fmt_imm8_def)
  have "parse_sprite 15 (?s # ?n # ?bo # row_list ?r [(?c, ?r2)] @ ?bc # [])
        = Inr (Some (sprite_statement ?n
                 \<lparr>sprite_data = map ucast [1, 255 :: 16 word] @ replicate (15 - length [1, 255 :: 16 word]) 0,
                    row_count = length [1, 255 :: 16 word]\<rparr>), [])"
    using c5 [OF ty rows2 vals2, of 15 "[]"] fits by simp
  moreover have "replicate 13 (0 :: 8 word) = [0, 0, 0, 0, 0, 0, 0, 0, 0, 0, 0, 0, 0]"
    by code_simp
  ultimately have ok: "parse_sprite 15 [?s, ?n, ?bo, ?r, ?c, ?r2, ?bc]
        = Inr (Some (sprite_statement ?n
                 \<lparr>sprite_data = [1, 255, 0, 0, 0, 0, 0, 0, 0, 0, 0, 0, 0, 0, 0], row_count = 2\<rparr>), [])"
    by (simp add: row_list_def)
  have "parse_sprite 15 (?s # ?n # ?bo # row_list ?r [(?c, ?r3)] @ ?bc # [])
          \<in> {Inl sprite_digit_too_large, Inl (sprite_too_much_pixels ?n 15 15)}"
    using c5 [OF ty rows3 vals3, of 15 "[]"] too_wide by blast
  have wide: "parse_sprite 15 [?s, ?n, ?bo, ?r, ?c, ?r3, ?bc] = Inl sprite_digit_too_large"
    by code_simp
  have "parse_sprite 1 (?s # ?n # ?bo # row_list ?r [(?c, ?r2)] @ ?bc # [])
          \<in> {Inl sprite_digit_too_large, Inl (sprite_too_much_pixels ?n 1 1)}"
    using c5 [OF ty rows2 vals2, of 1 "[]"] by simp
  have many: "parse_sprite 1 [?s, ?n, ?bo, ?r, ?c, ?r2, ?bc]
                       = Inl (sprite_too_much_pixels ?n 1 1)"
    by code_simp
  from ok wide many show ?thesis
    by (intro conjI)
qed

section \<open>The stable sort is determined by its contract\<close>






section \<open>Moving a declaration\<close>

lemma reads_one:
  "parse_primary_statement m (toks @ rest) = Inr (Some s, rest) \<Longrightarrow> reads m toks [s] rest"
  by (simp add: reads_def make_tree_loop.simps [of m _ "toks @ rest"])

lemma reads_append:
  assumes "reads m toks stmts (toks' @ rest)" "reads m toks' stmts' rest"
  shows "reads m (toks @ toks') (stmts @ stmts') rest"
  using assms by (simp add: reads_def)

lemma reads_Nil: "reads m [] [] rest"
  by (simp add: reads_def)




lemma reads_config:
  assumes "type k = keyword_config" "type i = identifier" "type q = equal_sign"
    and "type v \<in> {numerical, keyword_default}"
  shows "reads m [k, i, q, v] [config_statement i v] rest"
proof -
  have "parse_primary_statement m ([k, i, q, v] @ rest) = Inr (Some (config_statement i v), rest)"
    using assms by (auto simp: parse_primary_statement_def parse_config_def expect_Cons)
  then show ?thesis
    by (rule reads_one)
qed

lemma reads_sprite:
  assumes "type s = keyword_sprite" "type n = identifier" "type bo = bracket_open"
    and "type bc = bracket_close"
    and "type r = numerical" "\<forall>(c, r') \<in> set crs. type c = comma \<and> type r' = numerical"
    and "map data (r # map snd crs) = map uint16 vals"
    and "\<forall>v \<in> set vals. imm_matches_format v fmt_imm8" "length vals \<le> m"
  shows "reads m (s # n # bo # row_list r crs @ [bc])
           [sprite_statement n \<lparr>sprite_data = map ucast vals @ replicate (m - length vals) 0,
                                 row_count = length vals\<rparr>] rest"
proof -
  have "\<not> (\<exists>v \<in> set (take m vals). \<not> imm_matches_format v fmt_imm8)"
    using assms(8) by (auto dest: in_set_takeD)
  with parse_sprite_exact [OF assms(1-7), of m rest] assms(9)
  have "parse_sprite m (s # n # bo # row_list r crs @ bc # rest)
        = Inr (Some (sprite_statement n
                 \<lparr>sprite_data = map ucast vals @ replicate (m - length vals) 0,
                    row_count = length vals\<rparr>), rest)"
    by simp
  with assms(1)
  have "parse_primary_statement m ((s # n # bo # row_list r crs @ [bc]) @ rest)
        = Inr (Some (sprite_statement n
                 \<lparr>sprite_data = map ucast vals @ replicate (m - length vals) 0,
                    row_count = length vals\<rparr>), rest)"
    by (simp add: parse_primary_statement_def)
  then show ?thesis
    by (rule reads_one)
qed

lemma reads_procedure:
  assumes "type p = keyword_proc_start" "type A = identifier"
    and "parse_procedure_loop [] (body @ e # B # rest) = Inr (stmts, e # B # rest)"
    and "type B = identifier" "data B = data A"
  shows "reads m (p # A # body @ [e, B]) [procedure_statement A B stmts] rest"
proof -
  have "parse_procedure (p # A # body @ e # B # rest)
        = Inr (Some (procedure_statement A B stmts), rest)"
    using parse_procedure_names [OF assms(1-4)] assms(5) by simp
  with assms(1)
  have "parse_primary_statement m ((p # A # body @ [e, B]) @ rest)
        = Inr (Some (procedure_statement A B stmts), rest)"
    by (simp add: parse_primary_statement_def)
  then show ?thesis
    by (rule reads_one)
qed

lemma reads_label:
  assumes "type d = dot_label" "type n = identifier" "type c = colon"
    and "parse_label_loop [] (body @ rest) = Inr (stmts, rest)"
  shows "reads m (d # n # c # body) [label_statement n stmts] rest"
  using make_tree_loop_at_label [OF assms] by (simp add: reads_def)




end
